theory Spec2Isabelle
  imports Main "HOL-Library.Sublist"
begin

section \<open>Change detection of paths-filter: \<^verbatim>\<open>src/git.ts\<close>\<close>

text \<open>
  A shallow embedding of \<^verbatim>\<open>src/git.ts\<close>. JavaScript strings are modelled as
  \<^typ>\<open>string\<close>: the characters are the code units below 256, so a line or paragraph
  separator (U+2028, U+2029) does not occur. A JavaScript number that holds a fetch depth or a
  commit count is modelled as an \<^typ>\<open>int\<close>: the rounding of integers beyond
  \<open>2^53\<close>, fractions, infinities and NaN inputs are outside the model.
\<close>

subsection \<open>Strings of the JavaScript runtime\<close>

text \<open>\<^verbatim>\<open>s.split(sep)\<close> for a separator of one character: the empty string gives one
  empty piece.\<close>

fun split_on :: "char \<Rightarrow> string \<Rightarrow> string list" where
  "split_on sep [] = [[]]"
| "split_on sep (c # cs) =
     (if c = sep then [] # split_on sep cs
      else (case split_on sep cs of [] \<Rightarrow> [[c]] | t # ts \<Rightarrow> (c # t) # ts))"

definition NUL :: char where
  "NUL = CHR 0x00"

definition LF :: char where
  "LF = CHR 0x0A"

definition CR :: char where
  "CR = CHR 0x0D"

text \<open>\<^verbatim>\<open>s.split(/\r?\n/g)\<close>: a line feed, with the carriage return before it when
  there is one, separates two pieces.\<close>

fun split_lines :: "string \<Rightarrow> string list" where
  "split_lines [] = [[]]"
| "split_lines (c # cs) =
     (if c = CR \<and> cs \<noteq> [] \<and> hd cs = LF then [] # split_lines (tl cs)
      else if c = LF then [] # split_lines cs
      else (case split_lines cs of [] \<Rightarrow> [[c]] | t # ts \<Rightarrow> (c # t) # ts))"

text \<open>The dot of a regular expression matches every character but a line terminator.\<close>

definition is_line_terminator :: "char \<Rightarrow> bool" where
  "is_line_terminator c = (c = LF \<or> c = CR)"

text \<open>\<^verbatim>\<open>l.match(/refs\/.*$/)?.[0]\<close>: the leftmost place where \<^verbatim>\<open>refs/\<close> starts and
  the rest of the string has no line terminator; the match runs to the end.\<close>

fun match_refs :: "string \<Rightarrow> string option" where
  "match_refs [] = None"
| "match_refs (c # cs) =
     (if prefix ''refs/'' (c # cs) \<and> \<not> list_ex is_line_terminator (c # cs) then Some (c # cs)
      else match_refs cs)"

text \<open>Decimal digits of a number, as a template literal prints an integer.\<close>

definition digit_char :: "nat \<Rightarrow> char" where
  "digit_char n = char_of (48 + n)"

function nat_digits :: "nat \<Rightarrow> string" where
  "nat_digits n = (if n < 10 then [digit_char n] else nat_digits (n div 10) @ [digit_char (n mod 10)])"
  by pat_completeness auto
termination
  by (relation "measure (\<lambda>n. n)") auto

declare nat_digits.simps [simp del]

definition show_int :: "int \<Rightarrow> string" where
  "show_int i = (if i < 0 then CHR ''-'' # nat_digits (nat (- i)) else nat_digits (nat i))"

text \<open>\<^verbatim>\<open>parseInt(s)\<close> with no radix: leading white space is skipped, a sign is read,
  a prefix \<^verbatim>\<open>0x\<close> selects base 16, and the longest run of digits is the number;
  no digit at all is NaN, here \<^term>\<open>None\<close>.\<close>

definition is_white_space :: "char \<Rightarrow> bool" where
  "is_white_space c = (c \<in> set [CHR 0x09, CHR 0x0A, CHR 0x0B, CHR 0x0C, CHR 0x0D, CHR 0x20, CHR 0xA0])"

definition digit_value :: "char \<Rightarrow> nat option" where
  "digit_value c =
     (let n = (of_char c :: nat) in
      if 48 \<le> n \<and> n \<le> 57 then Some (n - 48)
      else if 97 \<le> n \<and> n \<le> 122 then Some (n - 87)
      else if 65 \<le> n \<and> n \<le> 90 then Some (n - 55)
      else None)"

definition is_digit_in :: "nat \<Rightarrow> char \<Rightarrow> bool" where
  "is_digit_in radix c = (case digit_value c of None \<Rightarrow> False | Some v \<Rightarrow> v < radix)"

definition digits_value :: "nat \<Rightarrow> string \<Rightarrow> nat" where
  "digits_value radix ds = foldl (\<lambda>acc c. acc * radix + (case digit_value c of None \<Rightarrow> 0 | Some v \<Rightarrow> v)) 0 ds"

definition parseInt :: "string \<Rightarrow> int option" where
  "parseInt inputString =
     (let s = dropWhile is_white_space inputString;
          negative = (s \<noteq> [] \<and> hd s = CHR ''-'');
          s = (if s \<noteq> [] \<and> (hd s = CHR ''+'' \<or> hd s = CHR ''-'') then tl s else s);
          hex = (prefix ''0x'' s \<or> prefix ''0X'' s);
          radix = (if hex then 16 else 10);
          s = (if hex then drop 2 s else s);
          z = takeWhile (is_digit_in radix) s
      in if z = [] then None
         else Some (if negative then - int (digits_value radix z) else int (digits_value radix z)))"

subsection \<open>Files and their change status\<close>

text \<open>Modelled from the spec: the enumeration \<^verbatim>\<open>ChangeStatus\<close> and the type \<^verbatim>\<open>File\<close> of
  \<^verbatim>\<open>./file\<close>, which is not among the sources. A change status is one of Added, Copied,
  Deleted, Modified, Renamed and Unmerged; a file has a path, the field \<^verbatim>\<open>filename\<close> of
  \<^verbatim>\<open>git.ts\<close>, and a status.\<close>

datatype ChangeStatus = Added | Copied | Deleted | Modified | Renamed | Unmerged

text \<open>What \<^verbatim>\<open>statusMap[key]\<close> evaluates to: a status of the table, a member that every
  object inherits from \<^verbatim>\<open>Object.prototype\<close>, or \<^verbatim>\<open>undefined\<close>.\<close>

datatype status_value = Status ChangeStatus | Inherited string | Undefined

record File =
  status :: status_value
  filename :: string

definition statusMap :: "(string \<times> ChangeStatus) list" where
  "statusMap =
     [(''A'', Added), (''C'', Copied), (''D'', Deleted),
      (''M'', Modified), (''R'', Renamed), (''U'', Unmerged)]"

definition object_prototype_keys :: "string list" where
  "object_prototype_keys =
     [''constructor'', ''hasOwnProperty'', ''isPrototypeOf'', ''propertyIsEnumerable'',
      ''toLocaleString'', ''toString'', ''valueOf'', ''__proto__'', ''__defineGetter__'',
      ''__defineSetter__'', ''__lookupGetter__'', ''__lookupSetter__'']"

definition statusMap_lookup :: "string \<Rightarrow> status_value" where
  "statusMap_lookup key =
     (case map_of statusMap key of
        Some st \<Rightarrow> Status st
      | None \<Rightarrow> if key \<in> set object_prototype_keys then Inherited key else Undefined)"

subsection \<open>\<^verbatim>\<open>parseGitDiffOutput\<close>\<close>

definition tokens_of :: "string \<Rightarrow> string list" where
  "tokens_of output = filter (\<lambda>s. length s > 0) (split_on NUL output)"

text \<open>The loop \<^verbatim>\<open>for (let i = 0; i + 1 < tokens.length; i += 2)\<close> that pushes one file
  for each pair of tokens.\<close>

function parse_loop :: "string list \<Rightarrow> nat \<Rightarrow> File list \<Rightarrow> File list" where
  "parse_loop tokens i files =
     (if i + 1 < length tokens
      then parse_loop tokens (i + 2)
             (files @ [\<lparr>status = statusMap_lookup (tokens ! i), filename = tokens ! (i + 1)\<rparr>])
      else files)"
  by pat_completeness auto
termination
  by (relation "measure (\<lambda>(tokens, i, files). length tokens - i)") auto

declare parse_loop.simps [simp del]

definition parseGitDiffOutput :: "string \<Rightarrow> File list" where
  "parseGitDiffOutput output = parse_loop (tokens_of output) 0 []"

subsection \<open>\<^verbatim>\<open>isGitSha\<close>\<close>

text \<open>The character class \<^verbatim>\<open>[a-z0-9]\<close>, by code unit.\<close>

definition is_lower_alnum :: "char \<Rightarrow> bool" where
  "is_lower_alnum c =
     (let n = (of_char c :: nat) in (97 \<le> n \<and> n \<le> 122) \<or> (48 \<le> n \<and> n \<le> 57))"

text \<open>\<^verbatim>\<open>/^[a-z0-9]{40}$/.test(ref)\<close>: with no flags, the two anchors are the two ends
  of the string.\<close>

definition isGitSha :: "string \<Rightarrow> bool" where
  "isGitSha ref = (length ref = 40 \<and> list_all is_lower_alnum ref)"

subsection \<open>The repository accessor and the action's log\<close>

record exec_result =
  code :: int
  stdout :: string

text \<open>The repository accessor is a parameter: it answers a \<^verbatim>\<open>git\<close> command line (every
  call of \<^verbatim>\<open>git.ts\<close> runs \<^verbatim>\<open>git\<close>, so only the arguments are passed) with an exit code
  and its standard output, and changes the repository, the world \<^typ>\<open>'w\<close>.\<close>

type_synonym 'w accessor = "string list \<Rightarrow> 'w \<Rightarrow> exec_result \<times> 'w"

text \<open>What a run leaves behind, in order: the commands executed and the calls of
  \<^verbatim>\<open>@actions/core\<close>.\<close>

datatype event =
  Exec "string list"
| StartGroup string
| EndGroup
| Info string
| Warning string

record 'w env =
  world :: 'w
  events :: "event list"

datatype error =
  AccessorError "string list" int
| Error string

definition emit :: "event \<Rightarrow> 'w env \<Rightarrow> 'w env" where
  "emit e s = s\<lparr>events := events s @ [e]\<rparr>"

text \<open>Modelled from the spec: \<^verbatim>\<open>exec\<close> of \<^verbatim>\<open>./exec\<close>, which is not among the sources.
  The accessor returns the raw text and the exit code; an exit code other than zero is a
  failure that aborts the operation (the spec's \<^verbatim>\<open>AccessorError\<close>) unless the caller
  tolerates it with \<^verbatim>\<open>ignoreReturnCode\<close>.\<close>

definition exec :: "'w accessor \<Rightarrow> string list \<Rightarrow> bool \<Rightarrow> 'w env \<Rightarrow> (error + exec_result) \<times> 'w env" where
  "exec run args ignoreReturnCode s =
     (let (r, w') = run args (world s);
          s' = \<lparr>world = w', events = events s @ [Exec args]\<rparr>
      in if code r \<noteq> 0 \<and> \<not> ignoreReturnCode then (Inl (AccessorError args (code r)), s')
         else (Inr r, s'))"

definition fixStdOutNullTermination :: "'w env \<Rightarrow> 'w env" where
  "fixStdOutNullTermination s = emit (Info []) s"

subsection \<open>The discovery operations that run one comparison\<close>

definition getChangesInLastCommit :: "'w accessor \<Rightarrow> 'w env \<Rightarrow> (error + File list) \<times> 'w env" where
  "getChangesInLastCommit run s =
     (let s1 = emit (StartGroup ''Change detection in last commit'') s in
      case exec run [''log'', ''--format='', ''--no-renames'', ''--name-status'', ''-z'', ''-n'', ''1''] False s1 of
        (Inl e, s2) \<Rightarrow> (Inl e, emit EndGroup (fixStdOutNullTermination s2))
      | (Inr r, s2) \<Rightarrow>
          (Inr (parseGitDiffOutput (stdout r)), emit EndGroup (fixStdOutNullTermination s2)))"

definition hasCommit :: "'w accessor \<Rightarrow> string \<Rightarrow> 'w env \<Rightarrow> (error + bool) \<times> 'w env" where
  "hasCommit run ref s =
     (let s1 = emit (StartGroup (''Checking if commit for '' @ ref @ '' is locally available'')) s in
      case exec run [''cat-file'', ''-e'', ref @ ''^{commit}''] True s1 of
        (Inl e, s2) \<Rightarrow> (Inl e, emit EndGroup s2)
      | (Inr r, s2) \<Rightarrow> (Inr (code r = 0), emit EndGroup s2))"

definition getChanges :: "'w accessor \<Rightarrow> string \<Rightarrow> 'w env \<Rightarrow> (error + File list) \<times> 'w env" where
  "getChanges run baseRef s =
     (case hasCommit run baseRef s of
        (Inl e, s1) \<Rightarrow> (Inl e, s1)
      | (Inr present, s1) \<Rightarrow>
          (case (if \<not> present
                 then (let s2 = emit (StartGroup (''Fetching '' @ baseRef @ '' from origin'')) s1 in
                       case exec run [''fetch'', ''--depth=1'', ''--no-tags'', ''origin'', baseRef] False s2 of
                         (Inl e, s3) \<Rightarrow> (Inl e, s3)
                       | (Inr r, s3) \<Rightarrow> (Inr (), emit EndGroup s3))
                 else (Inr (), s1)) of
             (Inl e, s4) \<Rightarrow> (Inl e, s4)
           | (Inr u, s4) \<Rightarrow>
               (let s5 = emit (StartGroup (''Change detection '' @ baseRef @ ''..HEAD'')) s4 in
                case exec run [''diff'', ''--no-renames'', ''--name-status'', ''-z'', baseRef @ ''..HEAD''] False s5 of
                  (Inl e, s6) \<Rightarrow> (Inl e, emit EndGroup (fixStdOutNullTermination s6))
                | (Inr r, s6) \<Rightarrow>
                    (Inr (parseGitDiffOutput (stdout r)), emit EndGroup (fixStdOutNullTermination s6)))))"

definition getChangesOnHead :: "'w accessor \<Rightarrow> 'w env \<Rightarrow> (error + File list) \<times> 'w env" where
  "getChangesOnHead run s =
     (let s1 = emit (StartGroup ''Change detection on HEAD'') s in
      case exec run [''diff'', ''--no-renames'', ''--name-status'', ''-z'', ''HEAD''] False s1 of
        (Inl e, s2) \<Rightarrow> (Inl e, emit EndGroup (fixStdOutNullTermination s2))
      | (Inr r, s2) \<Rightarrow>
          (Inr (parseGitDiffOutput (stdout r)), emit EndGroup (fixStdOutNullTermination s2)))"

definition listAllFilesAsAdded :: "'w accessor \<Rightarrow> 'w env \<Rightarrow> (error + File list) \<times> 'w env" where
  "listAllFilesAsAdded run s =
     (let s1 = emit (StartGroup ''Listing all files tracked by git'') s in
      case exec run [''ls-files'', ''-z''] False s1 of
        (Inl e, s2) \<Rightarrow> (Inl e, emit EndGroup (fixStdOutNullTermination s2))
      | (Inr r, s2) \<Rightarrow>
          (Inr (map (\<lambda>path. \<lparr>status = Status Added, filename = path\<rparr>)
                  (filter (\<lambda>s. length s > 0) (split_on NUL (stdout r)))),
           emit EndGroup (fixStdOutNullTermination s2)))"

subsection \<open>Resolving a reference\<close>

definition getCommitCount :: "'w accessor \<Rightarrow> 'w env \<Rightarrow> (error + int) \<times> 'w env" where
  "getCommitCount run s =
     (case exec run [''rev-list'', ''--count'', ''--all''] False s of
        (Inl e, s1) \<Rightarrow> (Inl e, s1)
      | (Inr r, s1) \<Rightarrow> (Inr (case parseInt (stdout r) of None \<Rightarrow> 0 | Some count \<Rightarrow> count), s1))"

text \<open>The candidates \<^verbatim>\<open>refs\<close> that \<^verbatim>\<open>getFullRef\<close> reads off the output of
  \<^verbatim>\<open>git show-ref\<close>.\<close>

definition candidate_refs :: "string \<Rightarrow> string list" where
  "candidate_refs output =
     filter (\<lambda>l. l \<noteq> [])
       (map (\<lambda>l. case match_refs l of None \<Rightarrow> [] | Some m \<Rightarrow> m) (split_lines output))"

definition getFullRef :: "'w accessor \<Rightarrow> string \<Rightarrow> 'w env \<Rightarrow> (error + string option) \<times> 'w env" where
  "getFullRef run shortName s =
     (if isGitSha shortName then (Inr (Some shortName), s)
      else
        (case exec run [''show-ref'', shortName] True s of
           (Inl e, s1) \<Rightarrow> (Inl e, s1)
         | (Inr r, s1) \<Rightarrow>
             (let refs = candidate_refs (stdout r) in
              if length refs = 0 then (Inr None, s1)
              else
                (case find (\<lambda>ref. prefix ''refs/remotes/origin/'' ref) refs of
                   Some remoteRef \<Rightarrow> (Inr (Some remoteRef), s1)
                 | None \<Rightarrow> (Inr (Some (refs ! 0)), s1)))))"

subsection \<open>\<^verbatim>\<open>getChangesSinceMergeBase\<close>\<close>

definition MAX_SAFE_INTEGER :: int where
  "MAX_SAFE_INTEGER = 9007199254740991"

text \<open>\<^verbatim>\<open>depth = Math.min(depth * 2, Number.MAX_SAFE_INTEGER)\<close>\<close>

definition next_depth :: "int \<Rightarrow> int" where
  "next_depth depth = min (depth * 2) MAX_SAFE_INTEGER"

text \<open>The local function \<^verbatim>\<open>hasMergeBase\<close>; it reads the variable \<^verbatim>\<open>baseRef\<close>, here
  a parameter, and asks the accessor only when the base is resolved.\<close>

definition hasMergeBase :: "'w accessor \<Rightarrow> string option \<Rightarrow> string \<Rightarrow> 'w env \<Rightarrow> (error + bool) \<times> 'w env" where
  "hasMergeBase run baseRef ref s =
     (case baseRef of
        None \<Rightarrow> (Inr False, s)
      | Some b \<Rightarrow>
          (case exec run [''merge-base'', b, ref] True s of
             (Inl e, s1) \<Rightarrow> (Inl e, s1)
           | (Inr r, s1) \<Rightarrow> (Inr (code r = 0), s1)))"

text \<open>Lines 71 to 80, after the first fetch: a base that was not resolved is resolved again,
  once more after a fetch with tags, and is an error after that.\<close>

definition resolve_after_fetch ::
  "'w accessor \<Rightarrow> string \<Rightarrow> string \<Rightarrow> string option \<Rightarrow> 'w env \<Rightarrow> (error + string option) \<times> 'w env" where
  "resolve_after_fetch run base ref baseRef s =
     (if baseRef = None
      then (case getFullRef run base s of
              (Inl e, s1) \<Rightarrow> (Inl e, s1)
            | (Inr baseRef2, s1) \<Rightarrow>
                if baseRef2 = None
                then (case exec run [''fetch'', ''--tags'', ''--depth=1'', ''origin'', base, ref] False s1 of
                        (Inl e, s2) \<Rightarrow> (Inl e, s2)
                      | (Inr r, s2) \<Rightarrow>
                          (case getFullRef run base s2 of
                             (Inl e, s3) \<Rightarrow> (Inl e, s3)
                           | (Inr baseRef3, s3) \<Rightarrow>
                               if baseRef3 = None
                               then (Inl (Error (''Could not determine what is '' @ base @
                                       '' - fetch works but it'' @ [CHR 0x27] @
                                       ''s not a branch or tag'')), s3)
                               else (Inr baseRef3, s3)))
                else (Inr baseRef2, s1))
      else (Inr baseRef, s))"

text \<open>Lines 68 to 83, before the loop: the base is resolved and, when no merge base is there
  yet, the first fetch is made and the commits are counted. The result is \<^verbatim>\<open>baseRef\<close>
  and, when the loop has to run, \<^verbatim>\<open>lastCommitCount\<close>.\<close>

definition initial_fetch ::
  "'w accessor \<Rightarrow> string \<Rightarrow> string \<Rightarrow> int \<Rightarrow> 'w env \<Rightarrow> (error + string option \<times> int option) \<times> 'w env" where
  "initial_fetch run base ref initialFetchDepth s =
     (case getFullRef run base s of
        (Inl e, s1) \<Rightarrow> (Inl e, s1)
      | (Inr baseRef, s1) \<Rightarrow>
          (case hasMergeBase run baseRef ref s1 of
             (Inl e, s2) \<Rightarrow> (Inl e, s2)
           | (Inr found, s2) \<Rightarrow>
               if found then (Inr (baseRef, None), s2)
               else
                 (case exec run [''fetch'', ''--no-tags'', ''--depth='' @ show_int initialFetchDepth,
                                 ''origin'', base, ref] False s2 of
                    (Inl e, s3) \<Rightarrow> (Inl e, s3)
                  | (Inr r, s3) \<Rightarrow>
                      (case resolve_after_fetch run base ref baseRef s3 of
                         (Inl e, s4) \<Rightarrow> (Inl e, s4)
                       | (Inr baseRef', s4) \<Rightarrow>
                           (case getCommitCount run s4 of
                              (Inl e, s5) \<Rightarrow> (Inl e, s5)
                            | (Inr lastCommitCount, s5) \<Rightarrow> (Inr (baseRef', Some lastCommitCount), s5))))))"

text \<open>One pass of the loop of lines 84 to 98 on \<^verbatim>\<open>depth\<close>, \<^verbatim>\<open>lastCommitCount\<close> and
  the environment: the test of the loop and, when it holds, the body. The pass ends the loop
  with an exception or with the value of \<^verbatim>\<open>noMergeBase\<close>, or the loop goes on.\<close>

datatype ('r, 'c) step = Break 'r | Continue 'c

definition search_step ::
  "'w accessor \<Rightarrow> string \<Rightarrow> string \<Rightarrow> string option \<Rightarrow> int \<times> int \<times> 'w env
     \<Rightarrow> ((error + bool) \<times> 'w env, int \<times> int \<times> 'w env) step" where
  "search_step run base ref baseRef x =
     (case x of (depth, lastCommitCount, s) \<Rightarrow>
        (case hasMergeBase run baseRef ref s of
           (Inl e, s1) \<Rightarrow> Break (Inl e, s1)
         | (Inr found, s1) \<Rightarrow>
             if found then Break (Inr False, s1)
             else
               (let depth' = next_depth depth in
                case exec run [''fetch'', ''--deepen='' @ show_int depth', ''origin'', base, ref] False s1 of
                  (Inl e, s2) \<Rightarrow> Break (Inl e, s2)
                | (Inr r, s2) \<Rightarrow>
                    (case getCommitCount run s2 of
                       (Inl e, s3) \<Rightarrow> Break (Inl e, s3)
                     | (Inr commitCount, s3) \<Rightarrow>
                         if commitCount = lastCommitCount
                         then
                           (let s4 = emit (Info ''No more commits were fetched'') s3;
                                s5 = emit (Info ''Last attempt will be to fetch full history'') s4 in
                            case exec run [''fetch''] False s5 of
                              (Inl e, s6) \<Rightarrow> Break (Inl e, s6)
                            | (Inr r2, s6) \<Rightarrow>
                                (case hasMergeBase run baseRef ref s6 of
                                   (Inl e, s7) \<Rightarrow> Break (Inl e, s7)
                                 | (Inr found2, s7) \<Rightarrow> Break (Inr (\<not> found2), s7)))
                         else Continue (depth', commitCount, s3)))))"

text \<open>The loop may run forever: not returning is the value \<^term>\<open>None\<close>.\<close>

partial_function (option) search_loop ::
  "'w accessor \<Rightarrow> string \<Rightarrow> string \<Rightarrow> string option \<Rightarrow> int \<times> int \<times> 'w env
     \<Rightarrow> ((error + bool) \<times> 'w env) option" where
  "search_loop run base ref baseRef x =
     (case search_step run base ref baseRef x of
        Break r \<Rightarrow> Some r
      | Continue x' \<Rightarrow> search_loop run base ref baseRef x')"

text \<open>The \<^verbatim>\<open>try\<close> block of lines 68 to 99: the resolved base and \<^verbatim>\<open>noMergeBase\<close>.\<close>

definition search_merge_base ::
  "'w accessor \<Rightarrow> string \<Rightarrow> string \<Rightarrow> int \<Rightarrow> 'w env \<Rightarrow> ((error + string option \<times> bool) \<times> 'w env) option" where
  "search_merge_base run base ref initialFetchDepth s =
     (case initial_fetch run base ref initialFetchDepth s of
        (Inl e, s1) \<Rightarrow> Some (Inl e, s1)
      | (Inr (baseRef, None), s1) \<Rightarrow> Some (Inr (baseRef, False), s1)
      | (Inr (baseRef, Some lastCommitCount), s1) \<Rightarrow>
          (case search_loop run base ref baseRef (initialFetchDepth, lastCommitCount, s1) of
             None \<Rightarrow> None
           | Some (Inl e, s2) \<Rightarrow> Some (Inl e, s2)
           | Some (Inr noMergeBase, s2) \<Rightarrow> Some (Inr (baseRef, noMergeBase), s2)))"

text \<open>A value of type \<^verbatim>\<open>string | undefined\<close> inside a template literal.\<close>

definition template_of :: "string option \<Rightarrow> string" where
  "template_of v = (case v of None \<Rightarrow> ''undefined'' | Some str \<Rightarrow> str)"

definition getChangesSinceMergeBase ::
  "'w accessor \<Rightarrow> string \<Rightarrow> string \<Rightarrow> int \<Rightarrow> 'w env \<Rightarrow> ((error + File list) \<times> 'w env) option" where
  "getChangesSinceMergeBase run base ref initialFetchDepth s =
     (let s0 = emit (StartGroup (''Searching for merge-base '' @ base @ ''...'' @ ref)) s in
      case search_merge_base run base ref initialFetchDepth s0 of
        None \<Rightarrow> None
      | Some (Inl e, s1) \<Rightarrow> Some (Inl e, emit EndGroup s1)
      | Some (Inr (baseRef, noMergeBase), s1) \<Rightarrow>
          (let s2 = emit EndGroup s1;
               s3 = (if noMergeBase
                     then emit (Warning ''No merge base found - change detection will use direct <commit>..<commit> comparison'') s2
                     else s2);
               diffArg = (if noMergeBase then template_of baseRef @ ''..'' @ ref
                          else template_of baseRef @ ''...'' @ ref);
               s4 = emit (StartGroup (''Change detection '' @ diffArg)) s3 in
           case exec run [''diff'', ''--no-renames'', ''--name-status'', ''-z'', diffArg] False s4 of
             (Inl e, s5) \<Rightarrow> Some (Inl e, emit EndGroup (fixStdOutNullTermination s5))
           | (Inr r, s5) \<Rightarrow>
               Some (Inr (parseGitDiffOutput (stdout r)), emit EndGroup (fixStdOutNullTermination s5))))"

text \<open>The state of the loop after \<open>n\<close> passes that all went on; \<^term>\<open>None\<close> when the loop
  ended before.\<close>

fun search_passes ::
  "'w accessor \<Rightarrow> string \<Rightarrow> string \<Rightarrow> string option \<Rightarrow> nat \<Rightarrow> int \<times> int \<times> 'w env
     \<Rightarrow> (int \<times> int \<times> 'w env) option" where
  "search_passes run base ref baseRef 0 x = Some x"
| "search_passes run base ref baseRef (Suc n) x =
     (case search_step run base ref baseRef x of
        Break r \<Rightarrow> None
      | Continue x' \<Rightarrow> search_passes run base ref baseRef n x')"

subsection \<open>The token stream of a comparison, for the statements below\<close>

text \<open>The loop of \<^verbatim>\<open>parseGitDiffOutput\<close> read as a recursion on the list of tokens.\<close>

fun pair_up :: "string list \<Rightarrow> File list" where
  "pair_up (t # p # rest) = \<lparr>status = statusMap_lookup t, filename = p\<rparr> # pair_up rest"
| "pair_up [t] = []"
| "pair_up [] = []"

text \<open>The stream that lists the records \<open>(statusCode, path)\<close>: the null character stands
  between two tokens, and none follows the last token.\<close>

fun token_stream :: "(string \<times> string) list \<Rightarrow> string" where
  "token_stream [] = []"
| "token_stream [(st, path)] = st @ [NUL] @ path"
| "token_stream ((st, path) # r # rs) = st @ [NUL] @ path @ [NUL] @ token_stream (r # rs)"

definition well_formed_token :: "string \<Rightarrow> bool" where
  "well_formed_token t = (t \<noteq> [] \<and> NUL \<notin> set t)"

definition file_of :: "string \<times> string \<Rightarrow> File" where
  "file_of rec = \<lparr>status = statusMap_lookup (fst rec), filename = snd rec\<rparr>"

subsection \<open>Reading the log\<close>

text \<open>The commands that were executed, and the warnings that were emitted, in order.\<close>

definition commands :: "event list \<Rightarrow> string list list" where
  "commands evs = concat (map (\<lambda>e. case e of Exec args \<Rightarrow> [args] | _ \<Rightarrow> []) evs)"

definition warnings :: "event list \<Rightarrow> string list" where
  "warnings evs = concat (map (\<lambda>e. case e of Warning m \<Rightarrow> [m] | _ \<Rightarrow> []) evs)"

subsection \<open>Two repositories to run the operations on\<close>

text \<open>A repository whose world is the number of fetches made so far. The base is known as a
  branch and as a remote branch; the two lines never share a commit; every fetch adds ten
  commits until the fourth, and none after; a comparison reports two files.\<close>

definition stalled_repository :: "nat accessor" where
  "stalled_repository args fetches =
     (case args of
        [] \<Rightarrow> (\<lparr>code = 1, stdout = []\<rparr>, fetches)
      | command # rest \<Rightarrow>
          if command = ''show-ref''
          then (\<lparr>code = 0, stdout = ''1f2e3d refs/heads/main'' @ [LF] @
                                    ''4a5b6c refs/remotes/origin/main'' @ [LF]\<rparr>, fetches)
          else if command = ''fetch'' then (\<lparr>code = 0, stdout = []\<rparr>, Suc fetches)
          else if command = ''rev-list''
          then (\<lparr>code = 0, stdout = show_int (int (min fetches 4) * 10) @ [LF]\<rparr>, fetches)
          else if command = ''diff'' \<or> command = ''log''
          then (\<lparr>code = 0, stdout = ''M'' @ NUL # ''src/git.ts'' @ NUL # ''A'' @ NUL # ''README.md'' @ [NUL]\<rparr>, fetches)
          else if command = ''ls-files''
          then (\<lparr>code = 0, stdout = ''src/git.ts'' @ NUL # ''README.md'' @ [NUL]\<rparr>, fetches)
          else (\<lparr>code = 1, stdout = []\<rparr>, fetches))"

text \<open>A repository where every fetch succeeds and no reference is ever known.\<close>

definition unknown_base_repository :: "nat accessor" where
  "unknown_base_repository args fetches =
     (case args of
        [] \<Rightarrow> (\<lparr>code = 1, stdout = []\<rparr>, fetches)
      | command # rest \<Rightarrow>
          if command = ''fetch'' then (\<lparr>code = 0, stdout = []\<rparr>, Suc fetches)
          else (\<lparr>code = 1, stdout = []\<rparr>, fetches))"

definition start :: "nat env" where
  "start = \<lparr>world = 0, events = []\<rparr>"

declare search_loop.simps [code]

subsection \<open>The passes of the search loop, for the statements below\<close>

text \<open>A merge base of the resolved base and the target is visible in an environment.\<close>

definition merge_base_visible :: "'w accessor \<Rightarrow> string option \<Rightarrow> string \<Rightarrow> 'w env \<Rightarrow> bool" where
  "merge_base_visible run baseRef ref s = (fst (hasMergeBase run baseRef ref s) = Inr True)"

text \<open>A pass of the loop finds no merge base and its deepen fetch leaves the number of commits
  as it was after the attempt before.\<close>

definition deepen_adds_nothing ::
  "'w accessor \<Rightarrow> string \<Rightarrow> string \<Rightarrow> string option \<Rightarrow> int \<times> int \<times> 'w env \<Rightarrow> bool" where
  "deepen_adds_nothing run base ref baseRef x =
     (case x of (depth, lastCommitCount, s) \<Rightarrow>
        (case hasMergeBase run baseRef ref s of
           (Inl e, s1) \<Rightarrow> False
         | (Inr found, s1) \<Rightarrow>
             \<not> found \<and>
             (case exec run [''fetch'', ''--deepen='' @ show_int (next_depth depth), ''origin'', base, ref] False s1 of
                (Inl e, s2) \<Rightarrow> False
              | (Inr r, s2) \<Rightarrow> fst (getCommitCount run s2) = Inr lastCommitCount)))"

text \<open>The commands of one deepen attempt: the test for a merge base, the fetch that deepens the
  history by \<open>depth\<close>, and the count of the commits.\<close>

definition attempt_commands :: "string \<Rightarrow> string \<Rightarrow> string \<Rightarrow> int \<Rightarrow> string list list" where
  "attempt_commands base ref b depth =
     [[''merge-base'', b, ref],
      [''fetch'', ''--deepen='' @ show_int depth, ''origin'', base, ref],
      [''rev-list'', ''--count'', ''--all'']]"

text \<open>Between two environments, no warning was emitted and no fetch of the full history was
  executed.\<close>

definition quiet :: "'w env \<Rightarrow> 'w env \<Rightarrow> bool" where
  "quiet s s' =
     (warnings (events s') = warnings (events s) \<and>
      count_list (commands (events s')) [''fetch''] = count_list (commands (events s)) [''fetch''])"

subsection \<open>Outputs that list each path once, for the statements below\<close>

text \<open>The output of a comparison lists each path once: it is the token stream of records with
  non-empty tokens free of null characters and with distinct paths, followed by any number of
  null characters. The output of \<^verbatim>\<open>git ls-files -z\<close> lists each path once: it is made of
  distinct such paths, each followed by a null character. An accessor lists each path once when
  its \<^verbatim>\<open>diff\<close>, \<^verbatim>\<open>log\<close> and \<^verbatim>\<open>ls-files\<close> commands always do.\<close>

definition name_status_once :: "string \<Rightarrow> bool" where
  "name_status_once output =
     (\<exists>recs k. list_all (\<lambda>rec. well_formed_token (fst rec) \<and> well_formed_token (snd rec)) recs \<and>
        distinct (map snd recs) \<and> output = token_stream recs @ replicate k NUL)"

definition paths_once :: "string \<Rightarrow> bool" where
  "paths_once output =
     (\<exists>paths. list_all well_formed_token paths \<and> distinct paths \<and>
        output = concat (map (\<lambda>path. path @ [NUL]) paths))"

definition lists_each_path_once :: "'w accessor \<Rightarrow> bool" where
  "lists_each_path_once run =
     (\<forall>args w.
        (args \<noteq> [] \<and> (hd args = ''diff'' \<or> hd args = ''log'') \<longrightarrow>
           name_status_once (stdout (fst (run args w)))) \<and>
        (args \<noteq> [] \<and> hd args = ''ls-files'' \<longrightarrow> paths_once (stdout (fst (run args w)))))"

definition distinct_filenames :: "error + File list \<Rightarrow> bool" where
  "distinct_filenames res = (case res of Inl e \<Rightarrow> True | Inr files \<Rightarrow> distinct (map filename files))"

section \<open>Properties\<close>

subsection \<open>Parsing the output of a comparison\<close>

lemma pair_up_short: "length ts \<le> 1 \<Longrightarrow> pair_up ts = []"
  by (cases ts rule: pair_up.cases) auto

lemma parse_loop_pair_up: "parse_loop tokens i files = files @ pair_up (drop i tokens)"
proof (induction tokens i files rule: parse_loop.induct)
  case (1 tokens i files)
  show ?case
  proof (cases "i + 1 < length tokens")
    case True
    then have d: "drop i tokens = tokens ! i # tokens ! (i + 1) # drop (i + 2) tokens"
      using Cons_nth_drop_Suc[of i tokens] Cons_nth_drop_Suc[of "Suc i" tokens] by simp
    from True 1 show ?thesis
      by (subst parse_loop.simps) (simp add: d)
  next
    case False
    then have "length (drop i tokens) \<le> 1" by simp
    then have "pair_up (drop i tokens) = []" by (rule pair_up_short)
    with False show ?thesis
      by (subst parse_loop.simps) simp
  qed
qed

lemma length_pair_up: "length (pair_up ts) = length ts div 2"
  by (induction ts rule: pair_up.induct) auto

lemma pair_up_eq_map:
  "pair_up ts = map (\<lambda>i. \<lparr>status = statusMap_lookup (ts ! (2 * i)), filename = ts ! (2 * i + 1)\<rparr>) [0..<length ts div 2]"
proof (induction ts rule: pair_up.induct)
  case (1 t p rest)
  then show ?case by (simp add: map_upt_Suc del: upt_Suc)
qed auto

lemma split_on_no_sep: "sep \<notin> set t \<Longrightarrow> split_on sep t = [t]"
  by (induction t) auto

lemma split_on_append: "sep \<notin> set t \<Longrightarrow> split_on sep (t @ sep # rest) = t # split_on sep rest"
  by (induction t) auto

lemma tokens_of_Cons: "NUL \<notin> set t \<Longrightarrow> tokens_of (t @ NUL # rest) = (if t = [] then [] else [t]) @ tokens_of rest"
  by (simp add: tokens_of_def split_on_append)

lemma tokens_of_NULs: "tokens_of (replicate k NUL) = []"
  by (induction k) (auto simp: tokens_of_def)

lemma tokens_of_last: "NUL \<notin> set t \<Longrightarrow> tokens_of (t @ replicate k NUL) = (if t = [] then [] else [t])"
proof (cases k)
  case 0
  assume "NUL \<notin> set t"
  with 0 show ?thesis by (simp add: tokens_of_def split_on_no_sep)
next
  case (Suc j)
  assume "NUL \<notin> set t"
  with Suc tokens_of_Cons[of t "replicate j NUL"] tokens_of_NULs[of j] show ?thesis by simp
qed

lemma tokens_of_token_stream:
  "list_all (\<lambda>rec. well_formed_token (fst rec) \<and> well_formed_token (snd rec)) recs \<Longrightarrow>
   tokens_of (token_stream recs @ replicate k NUL) = concat (map (\<lambda>rec. [fst rec, snd rec]) recs)"
proof (induction recs rule: token_stream.induct)
  case 1
  show ?case by (simp add: tokens_of_NULs)
next
  case (2 st path)
  then show ?case
    using tokens_of_Cons[of st "path @ replicate k NUL"] tokens_of_last[of path k]
    by (simp add: well_formed_token_def)
next
  case (3 st path r rs)
  then show ?case
    using tokens_of_Cons[of st "path @ NUL # token_stream (r # rs) @ replicate k NUL"]
      tokens_of_Cons[of path "token_stream (r # rs) @ replicate k NUL"]
    by (simp add: well_formed_token_def)
qed

lemma pair_up_concat: "pair_up (concat (map (\<lambda>rec. [fst rec, snd rec]) recs)) = map file_of recs"
  by (induction recs) (auto simp: file_of_def)

lemma parse_eq_pair_up: "parseGitDiffOutput output = pair_up (tokens_of output)"
  by (simp add: parseGitDiffOutput_def parse_loop_pair_up)



lemma parse_token_stream:
  assumes "list_all (\<lambda>rec. well_formed_token (fst rec) \<and> well_formed_token (snd rec)) recs"
  shows "parseGitDiffOutput (token_stream recs @ replicate k NUL) = map file_of recs"
  using assms by (simp add: parse_eq_pair_up tokens_of_token_stream pair_up_concat)

text \<open>Claim C4. \<^verbatim>\<open>parseGitDiffOutput\<close> maps a stream of pairs of tokens (status code, path)
  delimited by null characters to the list of the corresponding files, whether or not a
  delimiter or any number of empty tokens follow the last path; the string
  \<^verbatim>\<open>"A\0foo.txt\0D\0bar.txt\0"\<close> gives the file \<^verbatim>\<open>foo.txt\<close>, added, and the file
  \<^verbatim>\<open>bar.txt\<close>, deleted.\<close>

theorem parseGitDiffOutput_token_pairs:
  assumes "list_all (\<lambda>rec. well_formed_token (fst rec) \<and> well_formed_token (snd rec)) recs"
  shows "parseGitDiffOutput (token_stream recs @ replicate k NUL) = map file_of recs \<and>
         parseGitDiffOutput (''A'' @ NUL # ''foo.txt'' @ NUL # ''D'' @ NUL # ''bar.txt'' @ [NUL]) =
           [\<lparr>status = Status Added, filename = ''foo.txt''\<rparr>,
            \<lparr>status = Status Deleted, filename = ''bar.txt''\<rparr>]"
proof
  show "parseGitDiffOutput (token_stream recs @ replicate k NUL) = map file_of recs"
    using assms by (rule parse_token_stream)
  show "parseGitDiffOutput (''A'' @ NUL # ''foo.txt'' @ NUL # ''D'' @ NUL # ''bar.txt'' @ [NUL]) =
           [\<lparr>status = Status Added, filename = ''foo.txt''\<rparr>,
            \<lparr>status = Status Deleted, filename = ''bar.txt''\<rparr>]"
    by (simp add: parse_eq_pair_up tokens_of_def NUL_def statusMap_lookup_def statusMap_def)
qed

theorem parseGitDiffOutput_token_pairs_witness:
  "parseGitDiffOutput (''M'' @ NUL # ''src/a.ts'' @ [NUL, NUL]) =
     [\<lparr>status = Status Modified, filename = ''src/a.ts''\<rparr>]"
  using parseGitDiffOutput_token_pairs [of "[(''M'', ''src/a.ts'')]" "Suc (Suc 0)"]
  by (simp add: well_formed_token_def file_of_def NUL_def statusMap_lookup_def statusMap_def)

text \<open>Claim C9. \<^verbatim>\<open>parseGitDiffOutput\<close> returns on every string, and returns half as many
  files, rounded down, as the string has non-empty tokens between null characters: the file
  number \<open>i\<close> is made of the tokens \<open>2 * i\<close> and \<open>2 * i + 1\<close>, so the last token of an odd
  number of tokens is in no file.\<close>

theorem parseGitDiffOutput_half_of_tokens:
  "length (parseGitDiffOutput output) = length (filter (\<lambda>t. t \<noteq> []) (split_on NUL output)) div 2 \<and>
   parseGitDiffOutput output =
     map (\<lambda>i. \<lparr>status = statusMap_lookup (tokens_of output ! (2 * i)),
                filename = tokens_of output ! (2 * i + 1)\<rparr>)
       [0..<length (tokens_of output) div 2]"
proof
  have "length (parseGitDiffOutput output) = length (tokens_of output) div 2"
    by (simp add: parse_eq_pair_up length_pair_up)
  then show "length (parseGitDiffOutput output) = length (filter (\<lambda>t. t \<noteq> []) (split_on NUL output)) div 2"
    by (simp add: tokens_of_def)
  show "parseGitDiffOutput output =
     map (\<lambda>i. \<lparr>status = statusMap_lookup (tokens_of output ! (2 * i)),
                filename = tokens_of output ! (2 * i + 1)\<rparr>)
       [0..<length (tokens_of output) div 2]"
    unfolding parse_eq_pair_up by (rule pair_up_eq_map)
qed

lemma statusMap_lookup_scored:
  assumes "score \<noteq> []" and "c = CHR ''R'' \<or> c = CHR ''C''"
  shows "statusMap_lookup (c # score) = Undefined"
proof -
  obtain d ds where "score = d # ds" using assms(1) by (cases score) auto
  with assms(2) show ?thesis
    by (auto simp: statusMap_lookup_def statusMap_def object_prototype_keys_def)
qed

text \<open>Claim C3, as stated, fails: nothing is stripped from the status token before the
  lookup, so a rename or copy code that carries a similarity score is not found in
  \<^verbatim>\<open>statusMap\<close> and the status of the file is \<^verbatim>\<open>undefined\<close>.\<close>

theorem similarity_score_not_stripped_counterexample:
  "map status (parseGitDiffOutput (''R100'' @ NUL # ''old.txt'' @ [NUL])) = [Undefined] \<and>
   map status (parseGitDiffOutput (''C75'' @ NUL # ''copy.txt'' @ [NUL])) = [Undefined]"
  by (simp add: parse_eq_pair_up tokens_of_def NUL_def statusMap_lookup_def statusMap_def
      object_prototype_keys_def)

text \<open>Claim C3, amended. \<^verbatim>\<open>parseGitDiffOutput\<close> looks the status token up as it stands:
  a record has the status that \<^verbatim>\<open>statusMap\<close> gives its whole status token, which is
  Renamed for the token \<^verbatim>\<open>R\<close> and Copied for the token \<^verbatim>\<open>C\<close>, and undefined for
  \<^verbatim>\<open>R\<close> or \<^verbatim>\<open>C\<close> followed by a similarity score.\<close>

theorem parseGitDiffOutput_status_token_verbatim:
  assumes "well_formed_token st" and "well_formed_token path"
  shows "parseGitDiffOutput (st @ NUL # path @ [NUL]) = [\<lparr>status = statusMap_lookup st, filename = path\<rparr>] \<and>
         statusMap_lookup ''R'' = Status Renamed \<and> statusMap_lookup ''C'' = Status Copied \<and>
         (score \<noteq> [] \<longrightarrow> statusMap_lookup (CHR ''R'' # score) = Undefined \<and>
                          statusMap_lookup (CHR ''C'' # score) = Undefined)"
proof -
  have "parseGitDiffOutput (token_stream [(st, path)] @ replicate (Suc 0) NUL) = map file_of [(st, path)]"
    using assms by (intro parse_token_stream) simp
  then have "parseGitDiffOutput (st @ NUL # path @ [NUL]) = [\<lparr>status = statusMap_lookup st, filename = path\<rparr>]"
    by (simp add: file_of_def)
  moreover have "statusMap_lookup ''R'' = Status Renamed" "statusMap_lookup ''C'' = Status Copied"
    by (simp_all add: statusMap_lookup_def statusMap_def)
  ultimately show ?thesis
    by (simp add: statusMap_lookup_scored)
qed

theorem parseGitDiffOutput_status_token_verbatim_witness:
  "parseGitDiffOutput (''R086'' @ NUL # ''new.txt'' @ [NUL]) = [\<lparr>status = Undefined, filename = ''new.txt''\<rparr>]"
  using parseGitDiffOutput_status_token_verbatim [of "''R086''" "''new.txt''" "''086''"]
  by (simp add: well_formed_token_def NUL_def)

subsection \<open>Resolving references and comparing directly\<close>

lemma commands_append [simp]: "commands (xs @ ys) = commands xs @ commands ys"
  by (simp add: commands_def)

lemma commands_simps [simp]:
  "commands [] = []"
  "commands (Exec args # evs) = args # commands evs"
  "commands (StartGroup g # evs) = commands evs"
  "commands (EndGroup # evs) = commands evs"
  "commands (Info m # evs) = commands evs"
  "commands (Warning m # evs) = commands evs"
  by (simp_all add: commands_def)

lemma is_lower_alnum_iff:
  "is_lower_alnum c \<longleftrightarrow> c \<in> set ''abcdefghijklmnopqrstuvwxyz0123456789''"
proof
  assume "is_lower_alnum c"
  then have "(97 \<le> (of_char c :: nat) \<and> (of_char c :: nat) < 123) \<or> (48 \<le> (of_char c :: nat) \<and> (of_char c :: nat) < 58)"
    by (auto simp: is_lower_alnum_def Let_def)
  then have "(of_char c :: nat) \<in> set ([97..<123] @ [48..<58])"
    by (simp only: set_append set_upt Un_iff atLeastLessThan_iff)
  then have "char_of (of_char c :: nat) \<in> char_of ` set ([97..<123] @ [48..<58] :: nat list)"
    by (rule imageI)
  then have "c \<in> set (map char_of ([97..<123] @ [48..<58] :: nat list))"
    by simp
  also have "map char_of ([97..<123] @ [48..<58] :: nat list) = ''abcdefghijklmnopqrstuvwxyz0123456789''"
    by code_simp
  finally show "c \<in> set ''abcdefghijklmnopqrstuvwxyz0123456789''" .
next
  assume "c \<in> set ''abcdefghijklmnopqrstuvwxyz0123456789''"
  then show "is_lower_alnum c"
    by (auto simp: is_lower_alnum_def)
qed

lemma exec_events: "exec run args ig s = (res, s') \<Longrightarrow> events s' = events s @ [Exec args]"
  by (auto simp: exec_def Let_def split: prod.splits if_splits)

lemma exec_world: "exec run args ig s = (res, s') \<Longrightarrow> world s' = snd (run args (world s))"
  by (auto simp: exec_def Let_def split: prod.splits if_splits)

lemma exec_result:
  "exec run args ig s =
     (if code (fst (run args (world s))) \<noteq> 0 \<and> \<not> ig
      then Inl (AccessorError args (code (fst (run args (world s)))))
      else Inr (fst (run args (world s))),
      \<lparr>world = snd (run args (world s)), events = events s @ [Exec args]\<rparr>)"
  by (auto simp: exec_def Let_def split: prod.splits)

text \<open>Claim C10. \<^verbatim>\<open>isGitSha\<close> holds exactly of the strings of forty characters among the
  lowercase letters and the digits, so of forty \<^verbatim>\<open>z\<close> too, and \<^verbatim>\<open>getFullRef\<close> returns
  such a string as it is and leaves the environment as it was: nothing is executed.\<close>

theorem isGitSha_forty_lower_alnum:
  "(isGitSha ref \<longleftrightarrow> length ref = 40 \<and> set ref \<subseteq> set ''abcdefghijklmnopqrstuvwxyz0123456789'') \<and>
   isGitSha (replicate 40 CHR ''z'') \<and>
   (isGitSha ref \<longrightarrow> getFullRef run ref s = (Inr (Some ref), s))"
proof (intro conjI)
  show "isGitSha ref \<longleftrightarrow> length ref = 40 \<and> set ref \<subseteq> set ''abcdefghijklmnopqrstuvwxyz0123456789''"
    unfolding isGitSha_def list_all_iff is_lower_alnum_iff by blast
  show "isGitSha (replicate 40 CHR ''z'')"
    by (simp add: isGitSha_def list_all_iff is_lower_alnum_def)
  show "isGitSha ref \<longrightarrow> getFullRef run ref s = (Inr (Some ref), s)"
    by (simp add: getFullRef_def)
qed

theorem isGitSha_forty_lower_alnum_witness:
  "isGitSha (replicate 40 CHR ''z'') \<and>
   getFullRef stalled_repository (replicate 40 CHR ''z'') \<lparr>world = 0, events = []\<rparr> =
     (Inr (Some (replicate 40 CHR ''z'')), \<lparr>world = 0, events = []\<rparr>)"
  using isGitSha_forty_lower_alnum [of "replicate 40 CHR ''z''" stalled_repository "\<lparr>world = 0, events = []\<rparr>"]
  by simp

text \<open>Claim C6. For a name that is not such a string, \<^verbatim>\<open>getFullRef\<close> reads the
  candidates off the output of \<^verbatim>\<open>git show-ref\<close>: with no candidate the result is
  \<^verbatim>\<open>undefined\<close>; when some candidate starts with \<^verbatim>\<open>refs/remotes/origin/\<close> the result is
  the first of these; otherwise it is the first candidate.\<close>

theorem getFullRef_prefers_remote:
  assumes "\<not> isGitSha shortName"
      and "refs = candidate_refs (stdout (fst (run [''show-ref'', shortName] (world s))))"
  shows "\<exists>res. fst (getFullRef run shortName s) = Inr res \<and>
           (refs = [] \<longrightarrow> res = None) \<and>
           (list_ex (prefix ''refs/remotes/origin/'') refs \<longrightarrow>
              res = find (prefix ''refs/remotes/origin/'') refs \<and> res \<noteq> None) \<and>
           (refs \<noteq> [] \<and> \<not> list_ex (prefix ''refs/remotes/origin/'') refs \<longrightarrow> res = Some (hd refs))"
proof -
  have none: "\<not> list_ex P xs \<Longrightarrow> find P xs = None" for P :: "string \<Rightarrow> bool" and xs
    by (auto simp: find_None_iff list_ex_iff)
  have some: "list_ex P xs \<Longrightarrow> find P xs \<noteq> None" for P :: "string \<Rightarrow> bool" and xs
    by (auto simp: find_None_iff list_ex_iff)
  show ?thesis
    using assms(1) none[of "prefix ''refs/remotes/origin/''" refs] some[of "prefix ''refs/remotes/origin/''" refs]
    unfolding assms(2)
    by (cases "list_ex (prefix ''refs/remotes/origin/'') (candidate_refs (stdout (fst (run [''show-ref'', shortName] (world s)))))")
       (auto simp: getFullRef_def exec_result Let_def hd_conv_nth list_ex_iff split: option.splits)
qed

theorem getFullRef_prefers_remote_witness:
  "fst (getFullRef stalled_repository ''main'' start) = Inr (Some ''refs/remotes/origin/main'')"
proof -
  have a: "\<not> isGitSha ''main''" by (simp add: isGitSha_def)
  have b: "candidate_refs (stdout (fst (stalled_repository [''show-ref'', ''main''] (world start)))) =
             [''refs/heads/main'', ''refs/remotes/origin/main'']"
    by code_simp
  show ?thesis
    using getFullRef_prefers_remote [of "''main''" "[''refs/heads/main'', ''refs/remotes/origin/main'']"
        stalled_repository start] a b
    by auto
qed

text \<open>Claim C7. \<^verbatim>\<open>getChanges\<close> asks whether the commit of \<^verbatim>\<open>baseRef\<close> is there; it
  fetches it with depth 1 and no tags exactly when the answer is no; then it runs the
  comparison \<^verbatim>\<open>baseRef..HEAD\<close>, with two dots, and returns the files parsed from its output.\<close>

theorem getChanges_direct_compare:
  assumes cat: "run [''cat-file'', ''-e'', baseRef @ ''^{commit}''] (world s) = (r0, w0)"
      and fetch: "run [''fetch'', ''--depth=1'', ''--no-tags'', ''origin'', baseRef] w0 = (r1, w1)"
      and fetched: "code r0 = 0 \<or> code r1 = 0"
      and diff: "run [''diff'', ''--no-renames'', ''--name-status'', ''-z'', baseRef @ ''..HEAD'']
                   (if code r0 = 0 then w0 else w1) = (r2, w2)"
      and diffed: "code r2 = 0"
  shows "fst (getChanges run baseRef s) = Inr (parseGitDiffOutput (stdout r2)) \<and>
         commands (events (snd (getChanges run baseRef s))) =
           commands (events s) @ [[''cat-file'', ''-e'', baseRef @ ''^{commit}'']] @
           (if code r0 = 0 then [] else [[''fetch'', ''--depth=1'', ''--no-tags'', ''origin'', baseRef]]) @
           [[''diff'', ''--no-renames'', ''--name-status'', ''-z'', baseRef @ ''..HEAD'']]"
proof (cases "code r0 = 0")
  case True
  with cat diff diffed show ?thesis
    by (simp add: getChanges_def hasCommit_def exec_result emit_def fixStdOutNullTermination_def Let_def)
next
  case False
  with fetched have "code r1 = 0" by simp
  with False cat fetch diff diffed show ?thesis
    by (simp add: getChanges_def hasCommit_def exec_result emit_def fixStdOutNullTermination_def Let_def)
qed


theorem getChanges_direct_compare_witness:
  "fst (getChanges stalled_repository ''main'' start) =
     Inr [\<lparr>status = Status Modified, filename = ''src/git.ts''\<rparr>,
          \<lparr>status = Status Added, filename = ''README.md''\<rparr>] \<and>
   commands (events (snd (getChanges stalled_repository ''main'' start))) =
     [[''cat-file'', ''-e'', ''main^{commit}''],
      [''fetch'', ''--depth=1'', ''--no-tags'', ''origin'', ''main''],
      [''diff'', ''--no-renames'', ''--name-status'', ''-z'', ''main..HEAD'']]"
proof -
  have cat: "stalled_repository [''cat-file'', ''-e'', ''main'' @ ''^{commit}''] (world start) = (\<lparr>code = 1, stdout = []\<rparr>, 0)"
    by (simp add: stalled_repository_def start_def)
  have fetch: "stalled_repository [''fetch'', ''--depth=1'', ''--no-tags'', ''origin'', ''main''] 0 = (\<lparr>code = 0, stdout = []\<rparr>, 1)"
    by (simp add: stalled_repository_def)
  have diff: "stalled_repository [''diff'', ''--no-renames'', ''--name-status'', ''-z'', ''main'' @ ''..HEAD'']
      (if code \<lparr>code = 1, stdout = []\<rparr> = 0 then 0 else 1) =
      (\<lparr>code = 0, stdout = ''M'' @ NUL # ''src/git.ts'' @ NUL # ''A'' @ NUL # ''README.md'' @ [NUL]\<rparr>, 1)"
    by (simp add: stalled_repository_def)
  have p: "parseGitDiffOutput (''M'' @ NUL # ''src/git.ts'' @ NUL # ''A'' @ NUL # ''README.md'' @ [NUL]) =
     [\<lparr>status = Status Modified, filename = ''src/git.ts''\<rparr>,
          \<lparr>status = Status Added, filename = ''README.md''\<rparr>]"
    by code_simp
  show ?thesis
    using getChanges_direct_compare [OF cat fetch _ diff] p by (simp add: start_def)
qed

subsection \<open>The two repositories, command by command\<close>

lemma stalled_merge_base:
  "stalled_repository [''merge-base'', b, ref] w = (\<lparr>code = 1, stdout = []\<rparr>, w)"
  by (simp add: stalled_repository_def)

lemma stalled_fetch:
  "stalled_repository (''fetch'' # args) w = (\<lparr>code = 0, stdout = []\<rparr>, Suc w)"
  by (simp add: stalled_repository_def)

lemma stalled_rev_list:
  "stalled_repository [''rev-list'', ''--count'', ''--all''] w =
     (\<lparr>code = 0, stdout = show_int (int (min w 4) * 10) @ [LF]\<rparr>, w)"
  by (simp add: stalled_repository_def)

lemma stalled_show_ref:
  "stalled_repository [''show-ref'', name] w =
     (\<lparr>code = 0, stdout = ''1f2e3d refs/heads/main'' @ [LF] @ ''4a5b6c refs/remotes/origin/main'' @ [LF]\<rparr>, w)"
  by (simp add: stalled_repository_def)

lemma stalled_diff:
  "stalled_repository (''diff'' # args) w =
     (\<lparr>code = 0, stdout = ''M'' @ NUL # ''src/git.ts'' @ NUL # ''A'' @ NUL # ''README.md'' @ [NUL]\<rparr>, w)"
  by (simp add: stalled_repository_def)

lemma stalled_candidates:
  "candidate_refs (''1f2e3d refs/heads/main'' @ [LF] @ ''4a5b6c refs/remotes/origin/main'' @ [LF]) =
     [''refs/heads/main'', ''refs/remotes/origin/main'']"
  by code_simp

lemma stalled_files:
  "parseGitDiffOutput (''M'' @ NUL # ''src/git.ts'' @ NUL # ''A'' @ NUL # ''README.md'' @ [NUL]) =
     [\<lparr>status = Status Modified, filename = ''src/git.ts''\<rparr>,
      \<lparr>status = Status Added, filename = ''README.md''\<rparr>]"
  by code_simp

lemma main_not_sha: "\<not> isGitSha ''main''"
  by (simp add: isGitSha_def)

lemma show_int_values:
  "show_int 10 = ''10''" "show_int 20 = ''20''" "show_int 30 = ''30''" "show_int 40 = ''40''"
  "show_int 80 = ''80''" "show_int 160 = ''160''"
  by code_simp+

lemma parseInt_values:
  "parseInt (''10'' @ [LF]) = Some 10" "parseInt (''20'' @ [LF]) = Some 20"
  "parseInt (''30'' @ [LF]) = Some 30" "parseInt (''40'' @ [LF]) = Some 40"
  by code_simp+

lemma next_depth_values:
  "next_depth 10 = 20" "next_depth 20 = 40" "next_depth 40 = 80" "next_depth 80 = 160"
  by (simp_all add: next_depth_def MAX_SAFE_INTEGER_def)

lemmas stalled_simps =
  search_step_def hasMergeBase_def exec_def getCommitCount_def emit_def Let_def
  stalled_merge_base stalled_fetch stalled_rev_list stalled_show_ref stalled_diff
  stalled_candidates[simplified] stalled_files[simplified] main_not_sha
  show_int_values parseInt_values[simplified] next_depth_values

lemma unknown_base_fetch:
  "unknown_base_repository (''fetch'' # args) w = (\<lparr>code = 0, stdout = []\<rparr>, Suc w)"
  by (simp add: unknown_base_repository_def)

lemma unknown_base_show_ref:
  "unknown_base_repository [''show-ref'', name] w = (\<lparr>code = 1, stdout = []\<rparr>, w)"
  by (simp add: unknown_base_repository_def)

lemma no_candidates: "candidate_refs [] = []"
  by code_simp

subsection \<open>The search for a merge base\<close>

lemma warnings_append [simp]: "warnings (xs @ ys) = warnings xs @ warnings ys"
  by (simp add: warnings_def)

lemma warnings_simps [simp]:
  "warnings [] = []"
  "warnings (Exec args # evs) = warnings evs"
  "warnings (StartGroup g # evs) = warnings evs"
  "warnings (EndGroup # evs) = warnings evs"
  "warnings (Info m # evs) = warnings evs"
  "warnings (Warning m # evs) = m # warnings evs"
  by (simp_all add: warnings_def)

lemma search_loop_Break:
  "search_step run base ref baseRef x = Break r \<Longrightarrow> search_loop run base ref baseRef x = Some r"
  by (subst search_loop.simps) simp

lemma search_loop_Continue:
  "search_step run base ref baseRef x = Continue x' \<Longrightarrow>
   search_loop run base ref baseRef x = search_loop run base ref baseRef x'"
  by (subst search_loop.simps) simp

lemma search_loop_passes:
  "search_passes run base ref baseRef n x = Some x' \<Longrightarrow>
   search_loop run base ref baseRef x = search_loop run base ref baseRef x'"
  by (induction n arbitrary: x) (auto split: step.splits simp: search_loop_Continue)

lemma search_passes_None:
  "search_passes run base ref baseRef n x = None \<Longrightarrow>
   \<exists>m<n. \<exists>x' r. search_passes run base ref baseRef m x = Some x' \<and> search_step run base ref baseRef x' = Break r"
proof (induction n arbitrary: x)
  case 0
  then show ?case by simp
next
  case (Suc n)
  show ?case
  proof (cases "search_step run base ref baseRef x")
    case (Break r)
    then have "search_passes run base ref baseRef 0 x = Some x \<and> search_step run base ref baseRef x = Break r"
      by simp
    then show ?thesis by blast
  next
    case (Continue x')
    with Suc.prems have "search_passes run base ref baseRef n x' = None" by simp
    from Suc.IH[OF this] obtain m y r where
      m: "m < n" "search_passes run base ref baseRef m x' = Some y" "search_step run base ref baseRef y = Break r"
      by blast
    with Continue have "Suc m < Suc n \<and> search_passes run base ref baseRef (Suc m) x = Some y \<and>
        search_step run base ref baseRef y = Break r"
      by simp
    then show ?thesis by blast
  qed
qed

lemma visible_Break:
  "merge_base_visible run baseRef ref s \<Longrightarrow>
   \<exists>r. search_step run base ref baseRef (depth, lastCommitCount, s) = Break r"
  by (auto simp: merge_base_visible_def search_step_def split: prod.splits sum.splits)

lemma adds_nothing_Break:
  "deepen_adds_nothing run base ref baseRef x \<Longrightarrow> \<exists>r. search_step run base ref baseRef x = Break r"
  by (cases x) (auto simp: deepen_adds_nothing_def search_step_def Let_def split: prod.splits sum.splits)


text \<open>Claim C2. The loop that searches for a merge base ends after finitely many passes
  whenever a merge base becomes visible at some pass or the deepen fetch of some pass leaves the
  number of commits unchanged: if that holds of pass \<open>n + 1\<close> (or the loop is over by then),
  the loop returns, and some pass among the first \<open>n + 1\<close> is its last.\<close>

theorem search_loop_terminates:
  assumes "case search_passes run base ref baseRef n x of
             None \<Rightarrow> True
           | Some (depth, lastCommitCount, s) \<Rightarrow>
               merge_base_visible run baseRef ref s \<or>
               deepen_adds_nothing run base ref baseRef (depth, lastCommitCount, s)"
  shows "\<exists>m\<le>n. \<exists>x' r. search_passes run base ref baseRef m x = Some x' \<and>
           search_step run base ref baseRef x' = Break r \<and>
           search_loop run base ref baseRef x = Some r"
proof -
  have "\<exists>m\<le>n. \<exists>x' r. search_passes run base ref baseRef m x = Some x' \<and>
           search_step run base ref baseRef x' = Break r"
  proof (cases "search_passes run base ref baseRef n x")
    case None
    from search_passes_None[OF this] show ?thesis
      by (meson less_imp_le_nat)
  next
    case (Some y)
    obtain depth lastCommitCount s where y: "y = (depth, lastCommitCount, s)"
      by (cases y) auto
    from assms Some y have "merge_base_visible run baseRef ref s \<or>
        deepen_adds_nothing run base ref baseRef (depth, lastCommitCount, s)"
      by simp
    then obtain r where "search_step run base ref baseRef y = Break r"
      using visible_Break[of run baseRef ref s base depth lastCommitCount]
        adds_nothing_Break[of run base ref baseRef y] y by blast
    with Some show ?thesis by blast
  qed
  then obtain m x' r where m: "m \<le> n" "search_passes run base ref baseRef m x = Some x'"
      "search_step run base ref baseRef x' = Break r"
    by blast
  then have "search_loop run base ref baseRef x = Some r"
    using search_loop_passes[of run base ref baseRef m x x'] search_loop_Break[of run base ref baseRef x' r]
    by simp
  with m show ?thesis by blast
qed

theorem search_loop_terminates_witness:
  "\<exists>r. search_loop stalled_repository ''main'' ''HEAD'' (Some ''refs/remotes/origin/main'')
         (10, 10, \<lparr>world = 1, events = []\<rparr>) = Some r"
proof -
  have "case search_passes stalled_repository ''main'' ''HEAD'' (Some ''refs/remotes/origin/main'') 3
               (10, 10, \<lparr>world = 1, events = []\<rparr>) of
          None \<Rightarrow> True
        | Some (depth, lastCommitCount, s) \<Rightarrow>
            merge_base_visible stalled_repository (Some ''refs/remotes/origin/main'') ''HEAD'' s \<or>
            deepen_adds_nothing stalled_repository ''main'' ''HEAD'' (Some ''refs/remotes/origin/main'')
              (depth, lastCommitCount, s)"
    by (simp add: numeral_3_eq_3 stalled_simps merge_base_visible_def deepen_adds_nothing_def)
  from search_loop_terminates[OF this] show ?thesis by blast
qed

lemma hasMergeBase_Some:
  "hasMergeBase run (Some b) ref s =
     (Inr (code (fst (run [''merge-base'', b, ref] (world s))) = 0),
      \<lparr>world = snd (run [''merge-base'', b, ref] (world s)),
       events = events s @ [Exec [''merge-base'', b, ref]]\<rparr>)"
  by (simp add: hasMergeBase_def exec_result)

lemma hasMergeBase_events:
  "hasMergeBase run (Some b) ref s = (res, s') \<Longrightarrow> events s' = events s @ [Exec [''merge-base'', b, ref]]"
  by (auto simp: hasMergeBase_Some)

lemma getCommitCount_events:
  "getCommitCount run s = (res, s') \<Longrightarrow> events s' = events s @ [Exec [''rev-list'', ''--count'', ''--all'']]"
  by (auto simp: getCommitCount_def exec_result split: if_splits)

lemma search_step_Continue:
  assumes "search_step run base ref (Some b) (depth, lastCommitCount, s) = Continue (depth', commitCount, s')"
  shows "depth' = next_depth depth \<and> commitCount \<noteq> lastCommitCount \<and>
         events s' = events s @
           [Exec [''merge-base'', b, ref],
            Exec [''fetch'', ''--deepen='' @ show_int (next_depth depth), ''origin'', base, ref],
            Exec [''rev-list'', ''--count'', ''--all'']]"
  using assms
  by (auto simp: search_step_def Let_def
      dest!: hasMergeBase_events exec_events getCommitCount_events
      split: prod.splits sum.splits if_splits)


lemma search_passes_commands:
  "search_passes run base ref (Some b) k (depth0, count0, s0) = Some (depth, lastCommitCount, s) \<Longrightarrow>
   depth = (next_depth ^^ k) depth0 \<and>
   commands (events s) = commands (events s0) @
     concat (map (\<lambda>i. attempt_commands base ref b ((next_depth ^^ Suc i) depth0)) [0..<k]) \<and>
   warnings (events s) = warnings (events s0)"
proof (induction k arbitrary: depth0 count0 s0)
  case 0
  then show ?case by simp
next
  case (Suc k)
  from Suc.prems obtain depth1 count1 s1 where
    step: "search_step run base ref (Some b) (depth0, count0, s0) = Continue (depth1, count1, s1)" and
    rest: "search_passes run base ref (Some b) k (depth1, count1, s1) = Some (depth, lastCommitCount, s)"
    by (auto split: step.splits)
  from search_step_Continue[OF step] have
    d1: "depth1 = next_depth depth0" and
    e1: "events s1 = events s0 @
           [Exec [''merge-base'', b, ref],
            Exec [''fetch'', ''--deepen='' @ show_int (next_depth depth0), ''origin'', base, ref],
            Exec [''rev-list'', ''--count'', ''--all'']]"
    by simp_all
  from Suc.IH[OF rest] have
    d: "depth = (next_depth ^^ k) depth1" and
    c: "commands (events s) = commands (events s1) @
          concat (map (\<lambda>i. attempt_commands base ref b ((next_depth ^^ Suc i) depth1)) [0..<k])" and
    w: "warnings (events s) = warnings (events s1)"
    by simp_all
  have shift: "(next_depth ^^ j) (next_depth depth0) = (next_depth ^^ Suc j) depth0" for j
    by (simp add: funpow_swap1)
  have one: "(next_depth ^^ Suc 0) depth0 = next_depth depth0"
    by simp
  have "map (\<lambda>i. attempt_commands base ref b ((next_depth ^^ Suc i) depth0)) [0..<Suc k] =
        attempt_commands base ref b (next_depth depth0) #
        map (\<lambda>i. attempt_commands base ref b ((next_depth ^^ Suc i) depth1)) [0..<k]"
    unfolding d1 shift using one by (simp add: map_upt_Suc del: upt_Suc funpow.simps)
  then have "concat (map (\<lambda>i. attempt_commands base ref b ((next_depth ^^ Suc i) depth0)) [0..<Suc k]) =
        attempt_commands base ref b (next_depth depth0) @
        concat (map (\<lambda>i. attempt_commands base ref b ((next_depth ^^ Suc i) depth1)) [0..<k])"
    by (simp del: upt_Suc funpow.simps)
  with c e1 have "commands (events s) = commands (events s0) @
      concat (map (\<lambda>i. attempt_commands base ref b ((next_depth ^^ Suc i) depth0)) [0..<Suc k])"
    by (simp add: attempt_commands_def del: upt_Suc funpow.simps)
  moreover from d d1 have "depth = (next_depth ^^ Suc k) depth0"
    using shift[of k] by simp
  moreover from w e1 have "warnings (events s) = warnings (events s0)"
    by simp
  ultimately show ?case by blast
qed



lemma quiet_refl: "quiet s s"
  by (simp add: quiet_def)

lemma quiet_trans: "quiet s s1 \<Longrightarrow> quiet s1 s2 \<Longrightarrow> quiet s s2"
  by (simp add: quiet_def)

lemma count_list_append [simp]: "count_list (xs @ ys) x = count_list xs x + count_list ys x"
  by (induction xs) auto

lemma quiet_seq:
  assumes "quiet s (snd m)"
      and "\<And>v. quiet (snd m) (snd (k v (snd m)))"
  shows "quiet s (snd (case m of (Inl e, s1) \<Rightarrow> (Inl e, s1) | (Inr v, s1) \<Rightarrow> k v s1))"
proof (cases m)
  case (Pair r s1)
  with assms show ?thesis
    by (cases r) (auto intro: quiet_trans)
qed

lemma quiet_if:
  assumes "c \<Longrightarrow> quiet s (snd a)" and "\<not> c \<Longrightarrow> quiet s (snd b)"
  shows "quiet s (snd (if c then a else b))"
  using assms by simp

lemma quiet_here: "quiet s (snd (r, s))"
  by (simp add: quiet_def)

lemma exec_quiet: "args \<noteq> [''fetch''] \<Longrightarrow> quiet s (snd (exec run args ig s))"
  by (simp add: exec_result quiet_def)

lemma getFullRef_quiet: "quiet s (snd (getFullRef run name s))"
  unfolding getFullRef_def Let_def
  by (intro quiet_if quiet_seq quiet_here exec_quiet | simp split: option.splits add: quiet_refl)+

lemma hasMergeBase_quiet: "quiet s (snd (hasMergeBase run baseRef ref s))"
  unfolding hasMergeBase_def
  by (cases baseRef) (simp add: quiet_refl, simp, intro quiet_seq quiet_here exec_quiet, simp)

lemma getCommitCount_quiet: "quiet s (snd (getCommitCount run s))"
  unfolding getCommitCount_def
  by (intro quiet_seq quiet_here exec_quiet) simp

lemma resolve_after_fetch_quiet: "quiet s (snd (resolve_after_fetch run base ref baseRef s))"
  unfolding resolve_after_fetch_def
  by (intro quiet_if quiet_seq quiet_here exec_quiet getFullRef_quiet | simp)+

lemma initial_fetch_quiet: "quiet s (snd (initial_fetch run base ref initialFetchDepth s))"
  unfolding initial_fetch_def
  by (intro quiet_if quiet_seq quiet_here exec_quiet getFullRef_quiet hasMergeBase_quiet
        resolve_after_fetch_quiet getCommitCount_quiet | simp)+

lemma attempts_no_full_fetch:
  "count_list (concat (map (\<lambda>i. attempt_commands base ref b (f i)) is)) [''fetch''] = 0"
  by (induction "is") (auto simp: attempt_commands_def)

text \<open>Claim C1. Say the loop is entered with the resolved base \<open>b\<close>, \<open>k\<close> passes find no merge
  base and a changed number of commits, and the next pass finds no merge base and an unchanged
  number of commits. Then every deepen fetch, those of the \<open>k\<close> passes and the last one, is
  made at the depth doubled once more, capped at \<^verbatim>\<open>Number.MAX_SAFE_INTEGER\<close>; after the last
  one comes exactly one fetch of the full history, one more test for a merge base and no deepen
  fetch any more; and the comparison that follows is \<^verbatim>\<open>b..ref\<close> with a warning when that
  test finds no merge base, and \<^verbatim>\<open>b...ref\<close> with no warning when it finds one. The files
  returned are parsed from the output of that comparison.\<close>

theorem merge_base_search_stalls:
  assumes init: "initial_fetch run base ref initialFetchDepth
                   (emit (StartGroup (''Searching for merge-base '' @ base @ ''...'' @ ref)) s) =
                 (Inr (Some b, Some count0), s0)"
      and passes: "search_passes run base ref (Some b) k (initialFetchDepth, count0, s0) =
                   Some (depth, lastCommitCount, sk)"
      and absent: "hasMergeBase run (Some b) ref sk = (Inr False, s1)"
      and deepen: "exec run [''fetch'', ''--deepen='' @ show_int (next_depth depth), ''origin'', base, ref]
                     False s1 = (Inr r1, s2)"
      and unchanged: "getCommitCount run s2 = (Inr lastCommitCount, s3)"
      and full: "exec run [''fetch''] False
                   (emit (Info ''Last attempt will be to fetch full history'')
                      (emit (Info ''No more commits were fetched'') s3)) = (Inr r2, s4)"
      and final: "hasMergeBase run (Some b) ref s4 = (Inr found, s5)"
  shows "\<exists>res s'. getChangesSinceMergeBase run base ref initialFetchDepth s = Some (res, s') \<and>
           depth = (next_depth ^^ k) initialFetchDepth \<and>
           commands (events s') = commands (events s0) @
             concat (map (\<lambda>i. attempt_commands base ref b ((next_depth ^^ Suc i) initialFetchDepth)) [0..<Suc k]) @
             [[''fetch''], [''merge-base'', b, ref],
              [''diff'', ''--no-renames'', ''--name-status'', ''-z'', b @ (if found then ''...'' else ''..'') @ ref]] \<and>
           count_list (commands (events s')) [''fetch''] = count_list (commands (events s)) [''fetch''] + 1 \<and>
           warnings (events s') = warnings (events s) @
             (if found then []
              else [''No merge base found - change detection will use direct <commit>..<commit> comparison'']) \<and>
           (code (fst (run [''diff'', ''--no-renames'', ''--name-status'', ''-z'',
                            b @ (if found then ''...'' else ''..'') @ ref] (world s5))) = 0 \<longrightarrow>
            res = Inr (parseGitDiffOutput (stdout (fst (run [''diff'', ''--no-renames'', ''--name-status'', ''-z'',
                            b @ (if found then ''...'' else ''..'') @ ref] (world s5))))))"
proof -
  let ?start = "emit (StartGroup (''Searching for merge-base '' @ base @ ''...'' @ ref)) s"
  from search_passes_commands[OF passes] have
    depth: "depth = (next_depth ^^ k) initialFetchDepth" and
    ck: "commands (events sk) = commands (events s0) @
           concat (map (\<lambda>i. attempt_commands base ref b ((next_depth ^^ Suc i) initialFetchDepth)) [0..<k])" and
    wk: "warnings (events sk) = warnings (events s0)"
    by simp_all
  have step: "search_step run base ref (Some b) (depth, lastCommitCount, sk) = Break (Inr (\<not> found), s5)"
    using absent deepen unchanged full final by (simp add: search_step_def Let_def)
  have loop: "search_loop run base ref (Some b) (initialFetchDepth, count0, s0) = Some (Inr (\<not> found), s5)"
    using search_loop_passes[OF passes] search_loop_Break[OF step] by simp
  have smb: "search_merge_base run base ref initialFetchDepth ?start = Some (Inr (Some b, \<not> found), s5)"
    using init loop by (simp add: search_merge_base_def)
  have e5: "events s5 = events sk @
      [Exec [''merge-base'', b, ref],
       Exec [''fetch'', ''--deepen='' @ show_int (next_depth depth), ''origin'', base, ref],
       Exec [''rev-list'', ''--count'', ''--all''],
       Info ''No more commits were fetched'',
       Info ''Last attempt will be to fetch full history'',
       Exec [''fetch''],
       Exec [''merge-base'', b, ref]]"
    using hasMergeBase_events[OF absent] exec_events[OF deepen] getCommitCount_events[OF unchanged]
      exec_events[OF full] hasMergeBase_events[OF final]
    by (simp add: emit_def)
  have c5: "commands (events s5) = commands (events s0) @
      concat (map (\<lambda>i. attempt_commands base ref b ((next_depth ^^ Suc i) initialFetchDepth)) [0..<Suc k]) @
      [[''fetch''], [''merge-base'', b, ref]]"
    using ck by (simp add: e5 depth attempt_commands_def)
  have w5: "warnings (events s5) = warnings (events s0)"
    using wk by (simp add: e5)
  have "quiet (emit (StartGroup (''Searching for merge-base '' @ base @ ''...'' @ ref)) s) s0"
    using initial_fetch_quiet[of ?start run base ref initialFetchDepth] init by simp
  then have w0: "warnings (events s0) = warnings (events s)" and
    f0: "count_list (commands (events s0)) [''fetch''] = count_list (commands (events s)) [''fetch'']"
    by (simp_all add: quiet_def emit_def)
  have f5: "count_list (commands (events s5)) [''fetch''] = count_list (commands (events s)) [''fetch''] + 1"
    unfolding c5 using f0 by (simp add: attempts_no_full_fetch del: upt_Suc funpow.simps)
  show ?thesis
    using depth c5 w5 w0 f5 smb
    by (cases found)
       (simp_all add: getChangesSinceMergeBase_def Let_def exec_result emit_def template_of_def
          fixStdOutNullTermination_def del: upt_Suc funpow.simps)
qed

theorem merge_base_search_stalls_witness:
  "\<exists>res s'. getChangesSinceMergeBase stalled_repository ''main'' ''HEAD'' 10 start = Some (res, s') \<and>
     res = Inr [\<lparr>status = Status Modified, filename = ''src/git.ts''\<rparr>,
                \<lparr>status = Status Added, filename = ''README.md''\<rparr>] \<and>
     commands (events s') =
       [[''show-ref'', ''main''],
        [''merge-base'', ''refs/remotes/origin/main'', ''HEAD''],
        [''fetch'', ''--no-tags'', ''--depth=10'', ''origin'', ''main'', ''HEAD''],
        [''rev-list'', ''--count'', ''--all''],
        [''merge-base'', ''refs/remotes/origin/main'', ''HEAD''],
        [''fetch'', ''--deepen=20'', ''origin'', ''main'', ''HEAD''],
        [''rev-list'', ''--count'', ''--all''],
        [''merge-base'', ''refs/remotes/origin/main'', ''HEAD''],
        [''fetch'', ''--deepen=40'', ''origin'', ''main'', ''HEAD''],
        [''rev-list'', ''--count'', ''--all''],
        [''merge-base'', ''refs/remotes/origin/main'', ''HEAD''],
        [''fetch'', ''--deepen=80'', ''origin'', ''main'', ''HEAD''],
        [''rev-list'', ''--count'', ''--all''],
        [''merge-base'', ''refs/remotes/origin/main'', ''HEAD''],
        [''fetch'', ''--deepen=160'', ''origin'', ''main'', ''HEAD''],
        [''rev-list'', ''--count'', ''--all''],
        [''fetch''],
        [''merge-base'', ''refs/remotes/origin/main'', ''HEAD''],
        [''diff'', ''--no-renames'', ''--name-status'', ''-z'', ''refs/remotes/origin/main..HEAD'']] \<and>
     count_list (commands (events s')) [''fetch''] = 1 \<and>
     warnings (events s') =
       [''No merge base found - change detection will use direct <commit>..<commit> comparison'']"
proof -
  let ?run = stalled_repository
  let ?b = "''refs/remotes/origin/main''"
  let ?e0 = "[StartGroup ''Searching for merge-base main...HEAD'',
              Exec [''show-ref'', ''main''],
              Exec [''merge-base'', ''refs/remotes/origin/main'', ''HEAD''],
              Exec [''fetch'', ''--no-tags'', ''--depth=10'', ''origin'', ''main'', ''HEAD''],
              Exec [''rev-list'', ''--count'', ''--all'']]"
  let ?ek = "?e0 @
             [Exec [''merge-base'', ''refs/remotes/origin/main'', ''HEAD''],
              Exec [''fetch'', ''--deepen=20'', ''origin'', ''main'', ''HEAD''],
              Exec [''rev-list'', ''--count'', ''--all''],
              Exec [''merge-base'', ''refs/remotes/origin/main'', ''HEAD''],
              Exec [''fetch'', ''--deepen=40'', ''origin'', ''main'', ''HEAD''],
              Exec [''rev-list'', ''--count'', ''--all''],
              Exec [''merge-base'', ''refs/remotes/origin/main'', ''HEAD''],
              Exec [''fetch'', ''--deepen=80'', ''origin'', ''main'', ''HEAD''],
              Exec [''rev-list'', ''--count'', ''--all'']]"
  let ?e1 = "?ek @ [Exec [''merge-base'', ''refs/remotes/origin/main'', ''HEAD'']]"
  let ?e2 = "?e1 @ [Exec [''fetch'', ''--deepen=160'', ''origin'', ''main'', ''HEAD'']]"
  let ?e3 = "?e2 @ [Exec [''rev-list'', ''--count'', ''--all'']]"
  let ?e4 = "?e3 @ [Info ''No more commits were fetched'', Info ''Last attempt will be to fetch full history'',
                    Exec [''fetch'']]"
  let ?e5 = "?e4 @ [Exec [''merge-base'', ''refs/remotes/origin/main'', ''HEAD'']]"
  let ?s0 = "\<lparr>world = 1, events = ?e0\<rparr> :: nat env"
  let ?sk = "\<lparr>world = 4, events = ?ek\<rparr> :: nat env"
  let ?s1 = "\<lparr>world = 4, events = ?e1\<rparr> :: nat env"
  let ?s2 = "\<lparr>world = 5, events = ?e2\<rparr> :: nat env"
  let ?s3 = "\<lparr>world = 5, events = ?e3\<rparr> :: nat env"
  let ?s4 = "\<lparr>world = 6, events = ?e4\<rparr> :: nat env"
  let ?s5 = "\<lparr>world = 6, events = ?e5\<rparr> :: nat env"
  have init: "initial_fetch ?run ''main'' ''HEAD'' 10
                (emit (StartGroup (''Searching for merge-base '' @ ''main'' @ ''...'' @ ''HEAD'')) start) =
              (Inr (Some ?b, Some 10), ?s0)"
    by (simp add: initial_fetch_def resolve_after_fetch_def getFullRef_def start_def stalled_simps)
  have passes: "search_passes ?run ''main'' ''HEAD'' (Some ?b) 3 (10, 10, ?s0) = Some (80, 40, ?sk)"
    by (simp add: numeral_3_eq_3 stalled_simps)
  have absent: "hasMergeBase ?run (Some ?b) ''HEAD'' ?sk = (Inr False, ?s1)"
    by (simp add: stalled_simps)
  have deepen: "exec ?run [''fetch'', ''--deepen='' @ show_int (next_depth 80), ''origin'', ''main'', ''HEAD'']
                  False ?s1 = (Inr \<lparr>code = 0, stdout = []\<rparr>, ?s2)"
    by (simp add: stalled_simps)
  have unchanged: "getCommitCount ?run ?s2 = (Inr 40, ?s3)"
    by (simp add: stalled_simps)
  have full: "exec ?run [''fetch''] False
                (emit (Info ''Last attempt will be to fetch full history'')
                   (emit (Info ''No more commits were fetched'') ?s3)) = (Inr \<lparr>code = 0, stdout = []\<rparr>, ?s4)"
    by (simp add: stalled_simps)
  have final: "hasMergeBase ?run (Some ?b) ''HEAD'' ?s4 = (Inr False, ?s5)"
    by (simp add: stalled_simps)
  have attempts: "concat (map (\<lambda>i. attempt_commands ''main'' ''HEAD'' ?b ((next_depth ^^ Suc i) 10)) [0..<Suc 3]) =
       [[''merge-base'', ''refs/remotes/origin/main'', ''HEAD''],
        [''fetch'', ''--deepen=20'', ''origin'', ''main'', ''HEAD''],
        [''rev-list'', ''--count'', ''--all''],
        [''merge-base'', ''refs/remotes/origin/main'', ''HEAD''],
        [''fetch'', ''--deepen=40'', ''origin'', ''main'', ''HEAD''],
        [''rev-list'', ''--count'', ''--all''],
        [''merge-base'', ''refs/remotes/origin/main'', ''HEAD''],
        [''fetch'', ''--deepen=80'', ''origin'', ''main'', ''HEAD''],
        [''rev-list'', ''--count'', ''--all''],
        [''merge-base'', ''refs/remotes/origin/main'', ''HEAD''],
        [''fetch'', ''--deepen=160'', ''origin'', ''main'', ''HEAD''],
        [''rev-list'', ''--count'', ''--all'']]"
    by (simp add: numeral_3_eq_3 attempt_commands_def next_depth_values show_int_values)
  from merge_base_search_stalls[OF init passes absent deepen unchanged full final]
  obtain res s' where
    "getChangesSinceMergeBase stalled_repository ''main'' ''HEAD'' 10 start = Some (res, s')"
    "commands (events s') = commands (events ?s0) @
       concat (map (\<lambda>i. attempt_commands ''main'' ''HEAD'' ?b ((next_depth ^^ Suc i) 10)) [0..<Suc 3]) @
       [[''fetch''], [''merge-base'', ?b, ''HEAD''],
        [''diff'', ''--no-renames'', ''--name-status'', ''-z'', ?b @ (if False then ''...'' else ''..'') @ ''HEAD'']]"
    "count_list (commands (events s')) [''fetch''] = count_list (commands (events start)) [''fetch''] + 1"
    "warnings (events s') = warnings (events start) @
       (if False then []
        else [''No merge base found - change detection will use direct <commit>..<commit> comparison''])"
    "code (fst (?run [''diff'', ''--no-renames'', ''--name-status'', ''-z'',
                      ?b @ (if False then ''...'' else ''..'') @ ''HEAD''] (world ?s5))) = 0 \<longrightarrow>
     res = Inr (parseGitDiffOutput (stdout (fst (?run [''diff'', ''--no-renames'', ''--name-status'', ''-z'',
                      ?b @ (if False then ''...'' else ''..'') @ ''HEAD''] (world ?s5)))))"
    by blast
  then have
    "getChangesSinceMergeBase stalled_repository ''main'' ''HEAD'' 10 start = Some (res, s') \<and>
     res = Inr [\<lparr>status = Status Modified, filename = ''src/git.ts''\<rparr>,
                \<lparr>status = Status Added, filename = ''README.md''\<rparr>] \<and>
     commands (events s') =
       [[''show-ref'', ''main''],
        [''merge-base'', ''refs/remotes/origin/main'', ''HEAD''],
        [''fetch'', ''--no-tags'', ''--depth=10'', ''origin'', ''main'', ''HEAD''],
        [''rev-list'', ''--count'', ''--all''],
        [''merge-base'', ''refs/remotes/origin/main'', ''HEAD''],
        [''fetch'', ''--deepen=20'', ''origin'', ''main'', ''HEAD''],
        [''rev-list'', ''--count'', ''--all''],
        [''merge-base'', ''refs/remotes/origin/main'', ''HEAD''],
        [''fetch'', ''--deepen=40'', ''origin'', ''main'', ''HEAD''],
        [''rev-list'', ''--count'', ''--all''],
        [''merge-base'', ''refs/remotes/origin/main'', ''HEAD''],
        [''fetch'', ''--deepen=80'', ''origin'', ''main'', ''HEAD''],
        [''rev-list'', ''--count'', ''--all''],
        [''merge-base'', ''refs/remotes/origin/main'', ''HEAD''],
        [''fetch'', ''--deepen=160'', ''origin'', ''main'', ''HEAD''],
        [''rev-list'', ''--count'', ''--all''],
        [''fetch''],
        [''merge-base'', ''refs/remotes/origin/main'', ''HEAD''],
        [''diff'', ''--no-renames'', ''--name-status'', ''-z'', ''refs/remotes/origin/main..HEAD'']] \<and>
     count_list (commands (events s')) [''fetch''] = 1 \<and>
     warnings (events s') =
       [''No merge base found - change detection will use direct <commit>..<commit> comparison'']"
    unfolding attempts
    by (simp add: start_def stalled_diff stalled_files[simplified])
  then show ?thesis by blast
qed

text \<open>The other way out of the loop: when a pass finds a merge base, no fetch of the full history
  is made, no warning is emitted, and the comparison is \<^verbatim>\<open>b...ref\<close>.\<close>

lemma merge_base_search_finds:
  assumes init: "initial_fetch run base ref initialFetchDepth
                   (emit (StartGroup (''Searching for merge-base '' @ base @ ''...'' @ ref)) s) =
                 (Inr (Some b, Some count0), s0)"
      and passes: "search_passes run base ref (Some b) k (initialFetchDepth, count0, s0) =
                   Some (depth, lastCommitCount, sk)"
      and present: "hasMergeBase run (Some b) ref sk = (Inr True, s1)"
  shows "\<exists>res s'. getChangesSinceMergeBase run base ref initialFetchDepth s = Some (res, s') \<and>
           commands (events s') = commands (events s0) @
             concat (map (\<lambda>i. attempt_commands base ref b ((next_depth ^^ Suc i) initialFetchDepth)) [0..<k]) @
             [[''merge-base'', b, ref],
              [''diff'', ''--no-renames'', ''--name-status'', ''-z'', b @ ''...'' @ ref]] \<and>
           count_list (commands (events s')) [''fetch''] = count_list (commands (events s)) [''fetch''] \<and>
           warnings (events s') = warnings (events s)"
proof -
  let ?start = "emit (StartGroup (''Searching for merge-base '' @ base @ ''...'' @ ref)) s"
  from search_passes_commands[OF passes] have
    ck: "commands (events sk) = commands (events s0) @
           concat (map (\<lambda>i. attempt_commands base ref b ((next_depth ^^ Suc i) initialFetchDepth)) [0..<k])" and
    wk: "warnings (events sk) = warnings (events s0)"
    by simp_all
  have step: "search_step run base ref (Some b) (depth, lastCommitCount, sk) = Break (Inr False, s1)"
    using present by (simp add: search_step_def)
  have loop: "search_loop run base ref (Some b) (initialFetchDepth, count0, s0) = Some (Inr False, s1)"
    using search_loop_passes[OF passes] search_loop_Break[OF step] by simp
  have smb: "search_merge_base run base ref initialFetchDepth ?start = Some (Inr (Some b, False), s1)"
    using init loop by (simp add: search_merge_base_def)
  have e1: "events s1 = events sk @ [Exec [''merge-base'', b, ref]]"
    using hasMergeBase_events[OF present] .
  have c1: "commands (events s1) = commands (events s0) @
      concat (map (\<lambda>i. attempt_commands base ref b ((next_depth ^^ Suc i) initialFetchDepth)) [0..<k]) @
      [[''merge-base'', b, ref]]"
    using ck by (simp add: e1)
  have w1: "warnings (events s1) = warnings (events s0)"
    using wk by (simp add: e1)
  have "quiet ?start s0"
    using initial_fetch_quiet[of ?start run base ref initialFetchDepth] init by simp
  then have w0: "warnings (events s0) = warnings (events s)" and
    f0: "count_list (commands (events s0)) [''fetch''] = count_list (commands (events s)) [''fetch'']"
    by (simp_all add: quiet_def emit_def)
  have f1: "count_list (commands (events s1)) [''fetch''] = count_list (commands (events s)) [''fetch'']"
    unfolding c1 using f0 by (simp add: attempts_no_full_fetch del: upt_Suc funpow.simps)
  show ?thesis
    using c1 w1 w0 f1 smb
    by (simp add: getChangesSinceMergeBase_def Let_def exec_result emit_def template_of_def
          fixStdOutNullTermination_def del: upt_Suc funpow.simps)
qed

text \<open>The whole operation returns when the loop does.\<close>

lemma getChangesSinceMergeBase_returns:
  assumes "\<And>baseRef count0 s0.
     initial_fetch run base ref initialFetchDepth
       (emit (StartGroup (''Searching for merge-base '' @ base @ ''...'' @ ref)) s) =
     (Inr (baseRef, Some count0), s0) \<Longrightarrow>
     \<exists>r. search_loop run base ref baseRef (initialFetchDepth, count0, s0) = Some r"
  shows "\<exists>r. getChangesSinceMergeBase run base ref initialFetchDepth s = Some r"
proof -
  let ?start = "emit (StartGroup (''Searching for merge-base '' @ base @ ''...'' @ ref)) s"
  obtain res s0 where i: "initial_fetch run base ref initialFetchDepth ?start = (res, s0)"
    by (cases "initial_fetch run base ref initialFetchDepth ?start")
  have "\<exists>r. search_merge_base run base ref initialFetchDepth ?start = Some r"
  proof (cases res)
    case (Inl e)
    with i show ?thesis by (simp add: search_merge_base_def)
  next
    case (Inr p)
    obtain baseRef c where p: "p = (baseRef, c)" by (cases p)
    show ?thesis
    proof (cases c)
      case None
      with i Inr p show ?thesis by (simp add: search_merge_base_def)
    next
      case (Some count0)
      with i Inr p assms[of baseRef count0 s0] obtain r where
        "search_loop run base ref baseRef (initialFetchDepth, count0, s0) = Some r"
        by auto
      with i Inr p Some show ?thesis
        by (cases r; cases "fst r") (simp_all add: search_merge_base_def)
    qed
  qed
  then obtain r where "search_merge_base run base ref initialFetchDepth ?start = Some r"
    by blast
  then show ?thesis
    by (cases r; cases "fst r")
       (auto simp: getChangesSinceMergeBase_def Let_def split: prod.splits sum.splits)
qed

text \<open>Claim C5. When the base is resolved neither at first, nor after the first fetch, nor after
  the fetch with tags that is then made, \<^verbatim>\<open>getChangesSinceMergeBase\<close> fails with the error
  whose message names the base, and has executed no comparison.\<close>

theorem unresolved_base_fails:
  assumes first: "getFullRef run base (emit (StartGroup (''Searching for merge-base '' @ base @ ''...'' @ ref)) s) =
                  (Inr None, s1)"
      and shallow: "exec run [''fetch'', ''--no-tags'', ''--depth='' @ show_int initialFetchDepth,
                              ''origin'', base, ref] False s1 = (Inr r1, s2)"
      and second: "getFullRef run base s2 = (Inr None, s3)"
      and tags: "exec run [''fetch'', ''--tags'', ''--depth=1'', ''origin'', base, ref] False s3 = (Inr r2, s4)"
      and third: "getFullRef run base s4 = (Inr None, s5)"
  shows "getChangesSinceMergeBase run base ref initialFetchDepth s =
           Some (Inl (Error (''Could not determine what is '' @ base @
                             '' - fetch works but it'' @ [CHR 0x27] @ ''s not a branch or tag'')),
                 emit EndGroup s5) \<and>
         commands (events (emit EndGroup s5)) = commands (events s) @
           [[''show-ref'', base],
            [''fetch'', ''--no-tags'', ''--depth='' @ show_int initialFetchDepth, ''origin'', base, ref],
            [''show-ref'', base],
            [''fetch'', ''--tags'', ''--depth=1'', ''origin'', base, ref],
            [''show-ref'', base]]"
proof -
  let ?start = "emit (StartGroup (''Searching for merge-base '' @ base @ ''...'' @ ref)) s"
  have "initial_fetch run base ref initialFetchDepth ?start =
          (Inl (Error (''Could not determine what is '' @ base @
                       '' - fetch works but it'' @ [CHR 0x27] @ ''s not a branch or tag'')), s5)"
    using first shallow second tags third by (simp add: initial_fetch_def resolve_after_fetch_def hasMergeBase_def)
  then have result: "getChangesSinceMergeBase run base ref initialFetchDepth s =
           Some (Inl (Error (''Could not determine what is '' @ base @
                             '' - fetch works but it'' @ [CHR 0x27] @ ''s not a branch or tag'')),
                 emit EndGroup s5)"
    by (simp add: getChangesSinceMergeBase_def search_merge_base_def Let_def)
  have shown: "getFullRef run base t = (Inr None, t') \<Longrightarrow>
      events t' = events t @ [Exec [''show-ref'', base]]" for t t' :: "'a env"
    by (auto simp: getFullRef_def exec_result Let_def split: if_splits option.splits)
  have "events s5 = events ?start @
      [Exec [''show-ref'', base],
       Exec [''fetch'', ''--no-tags'', ''--depth='' @ show_int initialFetchDepth, ''origin'', base, ref],
       Exec [''show-ref'', base],
       Exec [''fetch'', ''--tags'', ''--depth=1'', ''origin'', base, ref],
       Exec [''show-ref'', base]]"
    using shown[OF first] exec_events[OF shallow] shown[OF second] exec_events[OF tags] shown[OF third]
    by simp
  then have "commands (events (emit EndGroup s5)) = commands (events s) @
           [[''show-ref'', base],
            [''fetch'', ''--no-tags'', ''--depth='' @ show_int initialFetchDepth, ''origin'', base, ref],
            [''show-ref'', base],
            [''fetch'', ''--tags'', ''--depth=1'', ''origin'', base, ref],
            [''show-ref'', base]]"
    by (simp add: emit_def)
  with result show ?thesis by simp
qed



theorem unresolved_base_fails_witness:
  "getChangesSinceMergeBase unknown_base_repository ''main'' ''HEAD'' 10 start =
     Some (Inl (Error ''Could not determine what is main - fetch works but it's not a branch or tag''),
           \<lparr>world = 2,
            events = [StartGroup ''Searching for merge-base main...HEAD'',
                      Exec [''show-ref'', ''main''],
                      Exec [''fetch'', ''--no-tags'', ''--depth=10'', ''origin'', ''main'', ''HEAD''],
                      Exec [''show-ref'', ''main''],
                      Exec [''fetch'', ''--tags'', ''--depth=1'', ''origin'', ''main'', ''HEAD''],
                      Exec [''show-ref'', ''main''],
                      EndGroup]\<rparr>)"
proof -
  let ?run = unknown_base_repository
  let ?e0 = "[StartGroup ''Searching for merge-base main...HEAD'']"
  let ?e1 = "?e0 @ [Exec [''show-ref'', ''main'']]"
  let ?e2 = "?e1 @ [Exec [''fetch'', ''--no-tags'', ''--depth=10'', ''origin'', ''main'', ''HEAD'']]"
  let ?e3 = "?e2 @ [Exec [''show-ref'', ''main'']]"
  let ?e4 = "?e3 @ [Exec [''fetch'', ''--tags'', ''--depth=1'', ''origin'', ''main'', ''HEAD'']]"
  let ?e5 = "?e4 @ [Exec [''show-ref'', ''main'']]"
  note defs = getFullRef_def exec_def emit_def Let_def start_def main_not_sha
    unknown_base_fetch unknown_base_show_ref no_candidates show_int_values
  have first: "getFullRef ?run ''main''
                 (emit (StartGroup (''Searching for merge-base '' @ ''main'' @ ''...'' @ ''HEAD'')) start) =
               (Inr None, \<lparr>world = 0, events = ?e1\<rparr>)"
    by (simp add: defs)
  have shallow: "exec ?run [''fetch'', ''--no-tags'', ''--depth='' @ show_int 10, ''origin'', ''main'', ''HEAD'']
                   False \<lparr>world = 0, events = ?e1\<rparr> =
                 (Inr \<lparr>code = 0, stdout = []\<rparr>, \<lparr>world = 1, events = ?e2\<rparr>)"
    by (simp add: defs)
  have second: "getFullRef ?run ''main'' \<lparr>world = 1, events = ?e2\<rparr> = (Inr None, \<lparr>world = 1, events = ?e3\<rparr>)"
    by (simp add: defs)
  have tags: "exec ?run [''fetch'', ''--tags'', ''--depth=1'', ''origin'', ''main'', ''HEAD'']
                False \<lparr>world = 1, events = ?e3\<rparr> =
              (Inr \<lparr>code = 0, stdout = []\<rparr>, \<lparr>world = 2, events = ?e4\<rparr>)"
    by (simp add: defs)
  have third: "getFullRef ?run ''main'' \<lparr>world = 2, events = ?e4\<rparr> = (Inr None, \<lparr>world = 2, events = ?e5\<rparr>)"
    by (simp add: defs)
  from unresolved_base_fails[OF first shallow second tags third] show ?thesis
    by (simp add: emit_def)
qed

subsection \<open>No path twice in a change set\<close>

lemma name_status_once_distinct:
  assumes "name_status_once output"
  shows "distinct (map filename (parseGitDiffOutput output))"
proof -
  from assms obtain recs k where
    wf: "list_all (\<lambda>rec. well_formed_token (fst rec) \<and> well_formed_token (snd rec)) recs" and
    d: "distinct (map snd recs)" and out: "output = token_stream recs @ replicate k NUL"
    unfolding name_status_once_def by blast
  have "filename \<circ> file_of = snd"
    by (simp add: file_of_def fun_eq_iff)
  with parse_token_stream[OF wf, of k] d out show ?thesis by simp
qed

lemma tokens_of_paths:
  "list_all well_formed_token paths \<Longrightarrow>
   filter (\<lambda>s. length s > 0) (split_on NUL (concat (map (\<lambda>path. path @ [NUL]) paths))) = paths"
proof (induction paths)
  case Nil
  then show ?case by simp
next
  case (Cons p ps)
  then show ?case
    using tokens_of_Cons[of p "concat (map (\<lambda>path. path @ [NUL]) ps)"]
    by (simp add: well_formed_token_def tokens_of_def)
qed

lemma paths_once_distinct:
  assumes "paths_once output"
  shows "distinct (map filename (map (\<lambda>path. \<lparr>status = Status Added, filename = path\<rparr>)
           (filter (\<lambda>s. length s > 0) (split_on NUL output))))"
proof -
  from assms obtain paths where
    wf: "list_all well_formed_token paths" and d: "distinct paths" and
    out: "output = concat (map (\<lambda>path. path @ [NUL]) paths)"
    unfolding paths_once_def by blast
  have "filename \<circ> (\<lambda>path. \<lparr>status = Status Added, filename = path\<rparr>) = (\<lambda>path. path)"
    by (simp add: fun_eq_iff)
  with tokens_of_paths[OF wf] d out show ?thesis by simp
qed

lemma listing_distinct:
  assumes "lists_each_path_once run"
  shows "distinct (map filename (parseGitDiffOutput (stdout (fst (run (''diff'' # args) w)))))"
    and "distinct (map filename (parseGitDiffOutput (stdout (fst (run (''log'' # args) w)))))"
    and "distinct (map filename (map (\<lambda>path. \<lparr>status = Status Added, filename = path\<rparr>)
           (filter (\<lambda>s. length s > 0) (split_on NUL (stdout (fst (run (''ls-files'' # args) w)))))))"
  using assms name_status_once_distinct paths_once_distinct
  unfolding lists_each_path_once_def
  by (metis list.sel(1) list.distinct(1))+

text \<open>Claim C8. When the accessor lists each path at most once, each of the five discovery
  operations returns files with pairwise distinct filenames.\<close>

theorem change_sets_list_each_path_once:
  assumes "lists_each_path_once run"
  shows "distinct_filenames (fst (getChanges run baseRef s)) \<and>
         distinct_filenames (fst (getChangesInLastCommit run s)) \<and>
         distinct_filenames (fst (getChangesOnHead run s)) \<and>
         distinct_filenames (fst (listAllFilesAsAdded run s)) \<and>
         (\<forall>res s'. getChangesSinceMergeBase run base ref initialFetchDepth s = Some (res, s') \<longrightarrow>
            distinct_filenames res)"
proof (intro conjI allI impI)
  note d = listing_distinct[OF assms]
  show "distinct_filenames (fst (getChanges run baseRef s))"
    using d(1) by (simp add: getChanges_def hasCommit_def exec_result Let_def distinct_filenames_def)
  show "distinct_filenames (fst (getChangesInLastCommit run s))"
    using d(2) by (simp add: getChangesInLastCommit_def exec_result Let_def distinct_filenames_def)
  show "distinct_filenames (fst (getChangesOnHead run s))"
    using d(1) by (simp add: getChangesOnHead_def exec_result Let_def distinct_filenames_def)
  show "distinct_filenames (fst (listAllFilesAsAdded run s))"
    using d(3) by (simp add: listAllFilesAsAdded_def exec_result Let_def distinct_filenames_def)
  fix res s'
  assume "getChangesSinceMergeBase run base ref initialFetchDepth s = Some (res, s')"
  then show "distinct_filenames res"
    using d(1)
    by (auto simp: getChangesSinceMergeBase_def exec_result Let_def distinct_filenames_def
        split: option.splits prod.splits sum.splits if_splits)
qed


lemma stalled_lists_each_path_once: "lists_each_path_once stalled_repository"
  unfolding lists_each_path_once_def
proof (intro allI conjI impI)
  fix args :: "string list" and w :: nat
  assume "args \<noteq> [] \<and> (hd args = ''diff'' \<or> hd args = ''log'')"
  then obtain rest where "args = ''diff'' # rest \<or> args = ''log'' # rest"
    by (cases args) auto
  then have "stdout (fst (stalled_repository args w)) =
      token_stream [(''M'', ''src/git.ts''), (''A'', ''README.md'')] @ replicate (Suc 0) NUL"
    by (auto simp: stalled_repository_def)
  moreover have "list_all (\<lambda>rec. well_formed_token (fst rec) \<and> well_formed_token (snd rec))
      [(''M'', ''src/git.ts''), (''A'', ''README.md'')]"
    by (simp add: well_formed_token_def NUL_def)
  moreover have "distinct (map snd [(''M'', ''src/git.ts''), (''A'', ''README.md'')])"
    by simp
  ultimately show "name_status_once (stdout (fst (stalled_repository args w)))"
    unfolding name_status_once_def by blast
next
  fix args :: "string list" and w :: nat
  assume "args \<noteq> [] \<and> hd args = ''ls-files''"
  then obtain rest where "args = ''ls-files'' # rest"
    by (cases args) auto
  then have "stdout (fst (stalled_repository args w)) =
      concat (map (\<lambda>path. path @ [NUL]) [''src/git.ts'', ''README.md''])"
    by (simp add: stalled_repository_def)
  moreover have "list_all well_formed_token [''src/git.ts'', ''README.md'']"
    by (simp add: well_formed_token_def NUL_def)
  moreover have "distinct [''src/git.ts'', ''README.md'']"
    by simp
  ultimately show "paths_once (stdout (fst (stalled_repository args w)))"
    unfolding paths_once_def by blast
qed

theorem change_sets_list_each_path_once_witness:
  "distinct_filenames (fst (getChanges stalled_repository ''main'' start)) \<and>
   fst (getChangesOnHead stalled_repository start) =
     Inr [\<lparr>status = Status Modified, filename = ''src/git.ts''\<rparr>,
          \<lparr>status = Status Added, filename = ''README.md''\<rparr>] \<and>
   distinct_filenames (fst (getChangesOnHead stalled_repository start)) \<and>
   fst (listAllFilesAsAdded stalled_repository start) =
     Inr [\<lparr>status = Status Added, filename = ''src/git.ts''\<rparr>,
          \<lparr>status = Status Added, filename = ''README.md''\<rparr>] \<and>
   distinct_filenames (fst (listAllFilesAsAdded stalled_repository start))"
proof -
  have head: "fst (getChangesOnHead stalled_repository start) =
     Inr [\<lparr>status = Status Modified, filename = ''src/git.ts''\<rparr>,
          \<lparr>status = Status Added, filename = ''README.md''\<rparr>]"
    by code_simp
  have files: "fst (listAllFilesAsAdded stalled_repository start) =
     Inr [\<lparr>status = Status Added, filename = ''src/git.ts''\<rparr>,
          \<lparr>status = Status Added, filename = ''README.md''\<rparr>]"
    by code_simp
  from change_sets_list_each_path_once[OF stalled_lists_each_path_once, of "''main''" start]
    head files
  show ?thesis by blast
qed

end
